theory Spec2Isabelle
  imports Complex_Main
begin

section \<open>Numbers and canvas drawing commands\<close>

text \<open>
  A JavaScript \<^verbatim>\<open>number\<close> is modelled as a real: arithmetic is exact, so the rounding of
  IEEE-754 doubles is idealised away, and the non-finite values (a division by zero, NaN)
  are outside the model. A theorem about the value of a quotient states that its divisor
  is positive. Where the code rounds a quotient of image sizes to a whole pixel, the last
  bits of the double decide which way an exact half goes; there the direction is left
  open (\<open>round_quotient\<close>).

  \<^verbatim>\<open>Math.round\<close> rounds to the nearest integer, a tie towards plus infinity.
\<close>

definition Math_round :: "real \<Rightarrow> real" where
  "Math_round x = of_int \<lfloor>x + 1 / 2\<rfloor>"

text \<open>A decoded image: where it was loaded from, and \<^verbatim>\<open>img.width\<close>, \<^verbatim>\<open>img.height\<close>.\<close>

record image =
  img_src :: string
  img_width :: nat
  img_height :: nat

text \<open>
  The calls made on a 2D context: \<^verbatim>\<open>fillRect\<close> under a fill style, the nine-argument
  \<^verbatim>\<open>drawImage(img, sx, sy, sw, sh, dx, dy, dw, dh)\<close> and the five-argument
  \<^verbatim>\<open>drawImage(img, dx, dy, dw, dh)\<close>.
\<close>

datatype draw_op =
    FillRect string real real real real
  | DrawImage image real real real real real real real real
  | DrawImageTo image real real real real

section \<open>The cover-fit drawer (\<^verbatim>\<open>drawImageCover\<close>)\<close>

definition drawImageCover :: "image \<Rightarrow> real \<Rightarrow> real \<Rightarrow> real \<Rightarrow> real \<Rightarrow> draw_op" where
  "drawImageCover img dx dy dw dh =
     (let sRatio = real (img_width img) / real (img_height img);
          dRatio = dw / dh
      in if sRatio > dRatio
         then (let sh = real (img_height img);
                   sw = sh * dRatio;
                   sx = (real (img_width img) - sw) / 2
               in DrawImage img sx 0 sw sh dx dy dw dh)
         else (let sw = real (img_width img);
                   sh = sw / dRatio;
                   sy = (real (img_height img) - sh) / 2
               in DrawImage img 0 sy sw sh dx dy dw dh))"

section \<open>Destination rectangles of the grid compositor (\<^verbatim>\<open>drawKey\<close>)\<close>

text \<open>
  \<^verbatim>\<open>drawKey(key, r, c, rs, cs)\<close> closes over the template's constants \<^verbatim>\<open>cols\<close>, \<^verbatim>\<open>rows\<close>,
  \<^verbatim>\<open>base\<close> and \<^verbatim>\<open>gap\<close>. Its geometry, the same text in every template, is \<open>cellRect\<close>:
  the rectangle \<open>(dx, dy, dw, dh)\<close> handed to \<^verbatim>\<open>drawImageCover\<close>.
\<close>

definition leftGap :: "real \<Rightarrow> nat \<Rightarrow> real" where
  "leftGap gap c = (if c = 0 then 0 else gap / 2)"

definition rightGap :: "nat \<Rightarrow> real \<Rightarrow> nat \<Rightarrow> nat \<Rightarrow> real" where
  "rightGap cols gap c cs = (if c + cs = cols then 0 else gap / 2)"

definition topGap :: "real \<Rightarrow> nat \<Rightarrow> real" where
  "topGap gap r = (if r = 0 then 0 else gap / 2)"

definition bottomGap :: "nat \<Rightarrow> real \<Rightarrow> nat \<Rightarrow> nat \<Rightarrow> real" where
  "bottomGap rows gap r rs = (if r + rs = rows then 0 else gap / 2)"

definition cellRect ::
  "nat \<Rightarrow> nat \<Rightarrow> real \<Rightarrow> real \<Rightarrow> nat \<Rightarrow> nat \<Rightarrow> nat \<Rightarrow> nat \<Rightarrow> real \<times> real \<times> real \<times> real" where
  "cellRect cols rows base gap r c rs cs =
     (let dx = Math_round (real c * base + leftGap gap c);
          dy = Math_round (real r * base + topGap gap r);
          dw = Math_round (real cs * base - (leftGap gap c + rightGap cols gap c cs));
          dh = Math_round (real rs * base - (topGap gap r + bottomGap rows gap r rs))
      in (dx, dy, dw, dh))"

text \<open>
  Template 33 (\<^verbatim>\<open>src/components/33.tsx\<close>): 8 columns, 10 rows, cells of 100 px, a gap of
  1 px, a canvas of \<open>cols * base\<close> by \<open>rows * base\<close> pixels and no context scaling.
\<close>

definition cols33 :: nat where "cols33 = 8"
definition rows33 :: nat where "rows33 = 10"
definition base33 :: real where "base33 = 100"
definition gap33 :: real where "gap33 = 1"
definition width33 :: real where "width33 = real cols33 * base33"
definition height33 :: real where "height33 = real rows33 * base33"

definition cellRect33 :: "nat \<Rightarrow> nat \<Rightarrow> nat \<Rightarrow> nat \<Rightarrow> real \<times> real \<times> real \<times> real" where
  "cellRect33 r c rs cs = cellRect cols33 rows33 base33 gap33 r c rs cs"

text \<open>
  Template 75 (\<^verbatim>\<open>src/components/75.tsx\<close>): 9 columns, 11 rows, cells of 100 logical px.
  The context is scaled by \<^verbatim>\<open>scale = Math.min(4, Math.max(2, window.devicePixelRatio || 1))\<close>
  and the gap is \<^verbatim>\<open>desiredGapPx / scale\<close> logical px, with \<^verbatim>\<open>desiredGapPx = 1\<close> ("keep this
  many device pixels visible between cells in final output"). The rectangles are rounded
  in logical units.
\<close>

definition cols75 :: nat where "cols75 = 9"
definition rows75 :: nat where "rows75 = 11"
definition base75 :: real where "base75 = 100"
definition desiredGapPx75 :: real where "desiredGapPx75 = 1"

definition scale75 :: "real \<Rightarrow> real" where
  "scale75 devicePixelRatio = min 4 (max 2 (if devicePixelRatio = 0 then 1 else devicePixelRatio))"

definition gap75 :: "real \<Rightarrow> real" where
  "gap75 devicePixelRatio = desiredGapPx75 / scale75 devicePixelRatio"

definition cellRect75 :: "real \<Rightarrow> nat \<Rightarrow> nat \<Rightarrow> nat \<Rightarrow> nat \<Rightarrow> real \<times> real \<times> real \<times> real" where
  "cellRect75 devicePixelRatio r c rs cs =
     cellRect cols75 rows75 base75 (gap75 devicePixelRatio) r c rs cs"

text \<open>
  Rectangles as the sets of points they cover (half-open, as pixels are), the distance
  from the right edge of one rectangle to the left edge of the next, and from the bottom
  edge of one to the top edge of the next.
\<close>

definition rect_right :: "real \<times> real \<times> real \<times> real \<Rightarrow> real" where
  "rect_right R = (case R of (dx, dy, dw, dh) \<Rightarrow> dx + dw)"

definition rect_bottom :: "real \<times> real \<times> real \<times> real \<Rightarrow> real" where
  "rect_bottom R = (case R of (dx, dy, dw, dh) \<Rightarrow> dy + dh)"

definition rect_left :: "real \<times> real \<times> real \<times> real \<Rightarrow> real" where
  "rect_left R = (case R of (dx, dy, dw, dh) \<Rightarrow> dx)"

definition rect_top :: "real \<times> real \<times> real \<times> real \<Rightarrow> real" where
  "rect_top R = (case R of (dx, dy, dw, dh) \<Rightarrow> dy)"

definition rect_disjoint :: "real \<times> real \<times> real \<times> real \<Rightarrow> real \<times> real \<times> real \<times> real \<Rightarrow> bool" where
  "rect_disjoint A B =
     (rect_right A \<le> rect_left B \<or> rect_right B \<le> rect_left A \<or>
      rect_bottom A \<le> rect_top B \<or> rect_bottom B \<le> rect_top A)"

section \<open>The cell store of a template component\<close>

text \<open>
  The component's state: the two \<^verbatim>\<open>useState\<close> maps \<^verbatim>\<open>cellImages\<close> and \<^verbatim>\<open>cellOffsets\<close>,
  \<^verbatim>\<open>selectedCell\<close>, the three refs of the drag code, and what the handlers leave with
  the browser: how many \<^verbatim>\<open>onMove\<close>/\<^verbatim>\<open>onUp\<close> closures are registered on the window, how
  many \<^verbatim>\<open>setTimeout\<close> callbacks of \<^verbatim>\<open>onUp\<close> are pending, the next animation-frame id, and
  the toasts shown.
\<close>

record drag =
  d_key :: "string option"
  d_startX :: real
  d_startY :: real
  d_startOffsetX :: real
  d_startOffsetY :: real
  d_elW :: real
  d_elH :: real
  d_moved :: bool

record upload_file =
  file_type :: string
  file_bytes :: "nat list"

record grid_state =
  cellImages :: "string \<rightharpoonup> string"
  cellOffsets :: "string \<rightharpoonup> real \<times> real"
  selectedCell :: "string option"
  dragRef :: "drag option"
  rafIdRef :: "nat option"
  pendingOffsetRef :: "(string option \<times> real \<times> real) option"
  moveListeners :: nat
  pendingTimeouts :: nat
  nextRafId :: nat
  toasts :: "string list"

definition initial_state :: grid_state where
  "initial_state =
     \<lparr>cellImages = Map.empty, cellOffsets = Map.empty, selectedCell = None, dragRef = None,
      rafIdRef = None, pendingOffsetRef = None, moveListeners = 0, pendingTimeouts = 0,
      nextRafId = 1, toasts = []\<rparr>"

text \<open>JavaScript truthiness of a string that may be \<^verbatim>\<open>undefined\<close>: the empty string is falsy.\<close>

definition truthy :: "string option \<Rightarrow> bool" where
  "truthy v = (case v of None \<Rightarrow> False | Some str \<Rightarrow> str \<noteq> [])"

text \<open>A property key computed from a value that may be \<^verbatim>\<open>null\<close>.\<close>

definition property_key :: "string option \<Rightarrow> string" where
  "property_key k = (case k of None \<Rightarrow> ''null'' | Some str \<Rightarrow> str)"

definition startsWith :: "string \<Rightarrow> string \<Rightarrow> bool" where
  "startsWith str pre = (take (length pre) str = pre)"

subsection \<open>Upload\<close>

definition handleCellClick :: "string \<Rightarrow> grid_state \<Rightarrow> grid_state" where
  "handleCellClick cellKey s = s\<lparr>selectedCell := Some cellKey\<rparr>"

text \<open>
  \<^verbatim>\<open>handleImageUpload\<close> returns the state it leaves and, when it started a \<^verbatim>\<open>FileReader\<close>,
  the key that the reader's \<^verbatim>\<open>onload\<close> closure captured together with the file being read.
\<close>

definition handleImageUpload ::
  "upload_file option \<Rightarrow> grid_state \<Rightarrow> grid_state \<times> (string \<times> upload_file) option" where
  "handleImageUpload file s =
     (case file of
        None \<Rightarrow> (s, None)
      | Some f \<Rightarrow>
          (case selectedCell s of
             None \<Rightarrow> (s, None)
           | Some sel \<Rightarrow>
               if sel = [] then (s, None)
               else if \<not> startsWith (file_type f) ''image/''
               then (s\<lparr>toasts := toasts s @ [''Please select an image file'']\<rparr>, None)
               else (s\<lparr>selectedCell := None\<rparr>, Some (sel, f))))"

definition reader_onload :: "string \<Rightarrow> string \<Rightarrow> grid_state \<Rightarrow> grid_state" where
  "reader_onload sel imageUrl s =
     s\<lparr>cellImages := (cellImages s)(sel \<mapsto> imageUrl),
       toasts := toasts s @ [''Image uploaded successfully!'']\<rparr>"

text \<open>
  A whole upload to a cell: the click that selects it, the file chosen, and the reader's
  \<^verbatim>\<open>onload\<close> with the data URL \<open>readAsDataURL f\<close> of the file.
\<close>

definition upload :: "(upload_file \<Rightarrow> string) \<Rightarrow> string \<Rightarrow> upload_file \<Rightarrow> grid_state \<Rightarrow> grid_state" where
  "upload readAsDataURL cellKey f s =
     (case handleImageUpload (Some f) (handleCellClick cellKey s) of
        (s', None) \<Rightarrow> s'
      | (s', Some (sel, g)) \<Rightarrow> reader_onload sel (readAsDataURL g) s')"

subsection \<open>Drag\<close>

definition startDrag :: "string \<Rightarrow> real \<Rightarrow> real \<Rightarrow> real \<Rightarrow> real \<Rightarrow> grid_state \<Rightarrow> grid_state" where
  "startDrag cellKey pageX pageY rectW rectH s =
     (if \<not> truthy (cellImages s cellKey) then s
      else (let current = (case cellOffsets s cellKey of None \<Rightarrow> (50, 50) | Some off \<Rightarrow> off)
            in s\<lparr>dragRef := Some \<lparr>d_key = Some cellKey, d_startX = pageX, d_startY = pageY,
                                   d_startOffsetX = fst current, d_startOffsetY = snd current,
                                   d_elW = rectW, d_elH = rectH, d_moved = False\<rparr>,
                  moveListeners := Suc (moveListeners s)\<rparr>))"

definition onMove :: "real \<Rightarrow> real \<Rightarrow> grid_state \<Rightarrow> grid_state" where
  "onMove pageX pageY s =
     (case dragRef s of
        None \<Rightarrow> s
      | Some d \<Rightarrow>
          (let dx = (pageX - d_startX d) / d_elW d * 100;
               dy = (pageY - d_startY d) / d_elH d * 100;
               nx = max 0 (min 100 (d_startOffsetX d + dx));
               ny = max 0 (min 100 (d_startOffsetY d + dy))
           in s\<lparr>dragRef := Some (d\<lparr>d_moved := True\<rparr>),
                 pendingOffsetRef := Some (d_key d, nx, ny),
                 rafIdRef := (case rafIdRef s of None \<Rightarrow> Some (nextRafId s) | Some i \<Rightarrow> Some i),
                 nextRafId := (case rafIdRef s of None \<Rightarrow> Suc (nextRafId s) | Some i \<Rightarrow> nextRafId s)\<rparr>))"

text \<open>The callback handed to \<^verbatim>\<open>requestAnimationFrame\<close>.\<close>

definition rafCallback :: "grid_state \<Rightarrow> grid_state" where
  "rafCallback s =
     (case pendingOffsetRef s of
        None \<Rightarrow> s\<lparr>rafIdRef := None\<rparr>
      | Some (k, x, y) \<Rightarrow>
          s\<lparr>cellOffsets := (cellOffsets s)(property_key k \<mapsto> (x, y)), rafIdRef := None\<rparr>)"

definition onUp :: "grid_state \<Rightarrow> grid_state" where
  "onUp s = s\<lparr>moveListeners := moveListeners s - 1, rafIdRef := None,
              pendingTimeouts := Suc (pendingTimeouts s)\<rparr>"

text \<open>The callback handed to \<^verbatim>\<open>setTimeout\<close> by \<^verbatim>\<open>onUp\<close>.\<close>

definition timeoutCallback :: "grid_state \<Rightarrow> grid_state" where
  "timeoutCallback s =
     s\<lparr>dragRef := (case dragRef s of None \<Rightarrow> None | Some d \<Rightarrow> Some (d\<lparr>d_key := None\<rparr>)),
       pendingTimeouts := pendingTimeouts s - 1\<rparr>"

text \<open>
  What the browser delivers to the component. A pointer move or release runs every
  registered closure; an animation frame runs the callback only while one is requested
  (\<^verbatim>\<open>onUp\<close> cancels it); a timeout runs only while one is pending. A file change
  carries the file chosen and the data URL that the reader, if one is started, loads.
\<close>

datatype event =
    StartDrag string real real real real
  | PointerMove real real
  | AnimationFrame
  | PointerUp
  | Timeout
  | CellClick string
  | FileChange "upload_file option" string

definition step :: "event \<Rightarrow> grid_state \<Rightarrow> grid_state" where
  "step e s =
     (case e of
        StartDrag cellKey pageX pageY rectW rectH \<Rightarrow> startDrag cellKey pageX pageY rectW rectH s
      | PointerMove pageX pageY \<Rightarrow> (onMove pageX pageY ^^ moveListeners s) s
      | AnimationFrame \<Rightarrow> (if rafIdRef s = None then s else rafCallback s)
      | PointerUp \<Rightarrow> (onUp ^^ moveListeners s) s
      | Timeout \<Rightarrow> (if pendingTimeouts s = 0 then s else timeoutCallback s)
      | CellClick cellKey \<Rightarrow> handleCellClick cellKey s
      | FileChange file imageUrl \<Rightarrow>
          (case handleImageUpload file s of
             (s', None) \<Rightarrow> s'
           | (s', Some (sel, g)) \<Rightarrow> reader_onload sel imageUrl s'))"

definition run :: "event list \<Rightarrow> grid_state \<Rightarrow> grid_state" where
  "run evs s = foldl (\<lambda>t e. step e t) s evs"

text \<open>
  The element under a pointer has a positive size: the rectangle that \<^verbatim>\<open>startDrag\<close> reads
  from \<^verbatim>\<open>getBoundingClientRect\<close> divides the pointer's travel.
\<close>

definition event_ok :: "event \<Rightarrow> bool" where
  "event_ok e = (case e of StartDrag cellKey pageX pageY rectW rectH \<Rightarrow> 0 < rectW \<and> 0 < rectH
                 | _ \<Rightarrow> True)"

definition offsets_in_range :: "grid_state \<Rightarrow> bool" where
  "offsets_in_range s =
     (\<forall>k x y. cellOffsets s k = Some (x, y) \<longrightarrow> 0 \<le> x \<and> x \<le> 100 \<and> 0 \<le> y \<and> y \<le> 100)"

text \<open>The offset waiting in \<^verbatim>\<open>pendingOffsetRef\<close> for the next animation frame, if any, is in range.\<close>

definition pending_in_range :: "grid_state \<Rightarrow> bool" where
  "pending_in_range s =
     (case pendingOffsetRef s of
        None \<Rightarrow> True
      | Some (k, x, y) \<Rightarrow> 0 \<le> x \<and> x \<le> 100 \<and> 0 \<le> y \<and> y \<le> 100)"

text \<open>The offset that a drag starts from: the stored one, or the centre.\<close>

definition current_offset :: "grid_state \<Rightarrow> string \<Rightarrow> real \<times> real" where
  "current_offset s cellKey = (case cellOffsets s cellKey of None \<Rightarrow> (50, 50) | Some off \<Rightarrow> off)"

section \<open>Canvases and export (\<^verbatim>\<open>renderGridToCanvas\<close> of template 33)\<close>

text \<open>
  A canvas is its pixel dimensions and the drawing calls made on its context, in order.
  Everything that can throw returns an \<open>error\<close> on the left of a sum.
\<close>

record canvas =
  cv_width :: nat
  cv_height :: nat
  cv_ops :: "draw_op list"

datatype error =
    CanvasNotSupported
  | ImageLoadRejected string
  | DecodeError
  | NoContext2D
  | TypeError

text \<open>The decimal digits of a number, as string concatenation prints them.\<close>

definition show_digit :: "nat \<Rightarrow> char" where
  "show_digit n = ''0123456789'' ! (n mod 10)"

fun show_nat :: "nat \<Rightarrow> string" where
  "show_nat n = (if n < 10 then [show_digit n] else show_nat (n div 10) @ [show_digit (n mod 10)])"

definition cid33 :: "string \<Rightarrow> nat \<Rightarrow> nat \<Rightarrow> string" where
  "cid33 section_name row col =
     ''grid-33'' @ '':'' @ section_name @ '':'' @ show_nat row @ ''-'' @ show_nat col"

text \<open>
  \<^verbatim>\<open>drawKey\<close> of template 33, appending to the calls made so far. \<open>loadImage\<close> is the
  browser's decoding of a source URL, \<open>None\<close> when the image's \<^verbatim>\<open>onerror\<close> fires and the
  promise is rejected.
\<close>

definition drawKey33 ::
  "(string \<Rightarrow> image option) \<Rightarrow> grid_state \<Rightarrow> string \<Rightarrow> nat \<Rightarrow> nat \<Rightarrow> nat \<Rightarrow> nat
     \<Rightarrow> draw_op list \<Rightarrow> error + draw_op list" where
  "drawKey33 loadImage s cellKey r c rs cs ops =
     (case cellImages s cellKey of
        None \<Rightarrow> Inr ops
      | Some src \<Rightarrow>
          if src = [] then Inr ops
          else (case loadImage src of
                  None \<Rightarrow> Inl (ImageLoadRejected src)
                | Some img \<Rightarrow>
                    (case cellRect33 r c rs cs of
                       (dx, dy, dw, dh) \<Rightarrow> Inr (ops @ [drawImageCover img dx dy dw dh]))))"

text \<open>
  The calls of \<^verbatim>\<open>renderGridToCanvas\<close> in program order: the top row, then for each of the
  eight middle rows the left cell, the 8-by-6 centre (in the first of them) and the right
  cell, then the bottom row. The calls of one \<^verbatim>\<open>Promise.all\<close> are taken in index order.
\<close>

definition calls33 :: "(string \<times> nat \<times> nat \<times> nat \<times> nat) list" where
  "calls33 =
     map (\<lambda>c. (cid33 ''top'' 0 c, 0, c, 1, 1)) [0..<8] @
     concat (map (\<lambda>i. [(cid33 ''left'' (i + 1) 0, 1 + i, 0, 1, 1)] @
                       (if i = 0 then [(cid33 ''center'' 0 0, 1, 1, 8, 6)] else []) @
                       [(cid33 ''right'' (i + 1) 7, 1 + i, 7, 1, 1)]) [0..<8]) @
     map (\<lambda>c. (cid33 ''bottom'' 9 c, 9, c, 1, 1)) [0..<8]"

fun drawKeys33 ::
  "(string \<Rightarrow> image option) \<Rightarrow> grid_state \<Rightarrow> (string \<times> nat \<times> nat \<times> nat \<times> nat) list
     \<Rightarrow> draw_op list \<Rightarrow> error + draw_op list" where
  "drawKeys33 loadImage s [] ops = Inr ops"
| "drawKeys33 loadImage s ((cellKey, r, c, rs, cs) # calls) ops =
     (case drawKey33 loadImage s cellKey r c rs cs ops of
        Inl e \<Rightarrow> Inl e
      | Inr ops' \<Rightarrow> drawKeys33 loadImage s calls ops')"

definition renderGridToCanvas33 ::
  "bool \<Rightarrow> (string \<Rightarrow> image option) \<Rightarrow> grid_state \<Rightarrow> error + canvas" where
  "renderGridToCanvas33 getContext loadImage s =
     (if \<not> getContext then Inl CanvasNotSupported
      else (case drawKeys33 loadImage s calls33 [FillRect ''#ffffff'' 0 0 width33 height33] of
              Inl e \<Rightarrow> Inl e
            | Inr ops \<Rightarrow>
                Inr \<lparr>cv_width = nat \<lfloor>width33\<rfloor>, cv_height = nat \<lfloor>height33\<rfloor>, cv_ops = ops\<rparr>))"

text \<open>
  The drawing calls that an export is expected to make after the white fill: for each
  call of \<^verbatim>\<open>drawKey\<close> whose key has an image, in order, the centred cover crop of that
  image into the cell's rectangle.
\<close>

fun cover_ops ::
  "(string \<Rightarrow> image option) \<Rightarrow> (string \<rightharpoonup> string) \<Rightarrow> (string \<times> nat \<times> nat \<times> nat \<times> nat) list
     \<Rightarrow> draw_op list" where
  "cover_ops loadImage images [] = []"
| "cover_ops loadImage images ((cellKey, r, c, rs, cs) # calls) =
     (case images cellKey of
        None \<Rightarrow> []
      | Some src \<Rightarrow>
          (case loadImage src of
             None \<Rightarrow> []
           | Some img \<Rightarrow>
               if src = [] then []
               else (case cellRect33 r c rs cs of
                       (dx, dy, dw, dh) \<Rightarrow> [drawImageCover img dx dy dw dh])))
     @ cover_ops loadImage images calls"

subsection \<open>What a canvas shows\<close>

text \<open>
  A pixel is the unit square at integer coordinates and holds red, green, blue and alpha.
  A new canvas is transparent black. A drawing call changes only the pixels that its
  destination rectangle overlaps; what it leaves there (resampling, compositing) is the
  browser's and is a parameter \<open>blend\<close>.
\<close>

type_synonym rgba = "nat \<times> nat \<times> nat \<times> nat"

definition transparent :: rgba where
  "transparent = (0, 0, 0, 0)"

definition rect_overlaps :: "real \<Rightarrow> real \<Rightarrow> real \<Rightarrow> real \<Rightarrow> nat \<times> nat \<Rightarrow> bool" where
  "rect_overlaps dx dy dw dh p =
     (min dx (dx + dw) < real (fst p) + 1 \<and> real (fst p) < max dx (dx + dw) \<and>
      min dy (dy + dh) < real (snd p) + 1 \<and> real (snd p) < max dy (dy + dh))"

fun op_overlaps :: "draw_op \<Rightarrow> nat \<times> nat \<Rightarrow> bool" where
  "op_overlaps (FillRect style x y w h) p = rect_overlaps x y w h p"
| "op_overlaps (DrawImage img sx sy sw sh dx dy dw dh) p = rect_overlaps dx dy dw dh p"
| "op_overlaps (DrawImageTo img dx dy dw dh) p = rect_overlaps dx dy dw dh p"

definition paint ::
  "(draw_op \<Rightarrow> nat \<times> nat \<Rightarrow> rgba \<Rightarrow> rgba) \<Rightarrow> (nat \<times> nat \<Rightarrow> rgba) \<Rightarrow> draw_op \<Rightarrow> nat \<times> nat \<Rightarrow> rgba" where
  "paint blend R op p = (if op_overlaps op p then blend op p (R p) else R p)"

definition raster :: "(draw_op \<Rightarrow> nat \<times> nat \<Rightarrow> rgba \<Rightarrow> rgba) \<Rightarrow> canvas \<Rightarrow> nat \<times> nat \<Rightarrow> rgba" where
  "raster blend cv = foldl (paint blend) (\<lambda>p. transparent) (cv_ops cv)"

fun is_fill :: "draw_op \<Rightarrow> bool" where
  "is_fill (FillRect style x y w h) = True"
| "is_fill (DrawImage img sx sy sw sh dx dy dw dh) = False"
| "is_fill (DrawImageTo img dx dy dw dh) = False"

section \<open>The face-centring cropper (\<^verbatim>\<open>centerCropFace\<close>)\<close>

text \<open>
  A detection is used only through its bounding box \<^verbatim>\<open>detection.box\<close>. The detector, the
  loading of its models, the decoding of the file and the creation of a 2D context are
  the browser's and the library's: they are the fields of \<open>face_env\<close>. \<open>loadFromUri\<close> says
  whether both models load; \<open>bufferToImage\<close> is \<open>None\<close> when decoding throws; \<open>getContext\<close>
  says whether a canvas of the given size has a 2D context; \<open>detectAllFaces\<close> is \<open>Inl\<close> when
  the detector throws. \<open>quotient_low\<close> belongs to the arithmetic of doubles, which the reals
  of this model leave out: it says whether, for the given image, the double that the code
  computes for the shorter side of the detection copy lies below the exact quotient.
\<close>

record box =
  box_x :: real
  box_y :: real
  box_width :: real
  box_height :: real

datatype detect_source = SourceImage image | SourceCanvas canvas

record face_env =
  loadFromUri :: bool
  bufferToImage :: "upload_file \<Rightarrow> image option"
  getContext :: "nat \<times> nat \<Rightarrow> bool"
  detectAllFaces :: "detect_source \<Rightarrow> string + box list"
  quotient_low :: "image \<Rightarrow> bool"

text \<open>
  The string returned: \<^verbatim>\<open>URL.createObjectURL(imgFile)\<close>, a URL of the file itself, or
  \<^verbatim>\<open>canvas.toDataURL('image/png')\<close>, the PNG of a canvas.
\<close>

datatype url = ObjectURL upload_file | DataURL canvas

text \<open>
  \<^verbatim>\<open>modelsLoadedPromise\<close> is \<open>None\<close> while null, and afterwards the settled promise:
  \<open>Some True\<close> fulfilled, \<open>Some False\<close> rejected. \<open>ensureModelsLoaded\<close> returns whether the
  awaited promise is fulfilled, with the new value of the variable.
\<close>

definition ensureModelsLoaded :: "face_env \<Rightarrow> bool option \<Rightarrow> bool \<times> bool option" where
  "ensureModelsLoaded env modelsLoadedPromise =
     (case modelsLoadedPromise of
        None \<Rightarrow> (loadFromUri env, Some (loadFromUri env))
      | Some settled \<Rightarrow> (settled, Some settled))"

definition MAX_SIZE :: real where "MAX_SIZE = 640"

text \<open>
  \<^verbatim>\<open>Math.round\<close> of a quotient that the code computes in doubles. The double is the exact
  quotient up to its last bits, so away from a half it rounds as the exact quotient does.
  Where the exact quotient is a whole number and a half, the double is that half or lies
  just below it, and the result is the whole number above or the one below: \<open>low\<close> says
  that the double lies below.
\<close>

definition round_quotient :: "bool \<Rightarrow> real \<Rightarrow> real" where
  "round_quotient low q =
     (if low \<and> q - of_int \<lfloor>q\<rfloor> = 1 / 2 then of_int \<lfloor>q\<rfloor> else Math_round q)"

definition targetWidth :: "face_env \<Rightarrow> image \<Rightarrow> real" where
  "targetWidth env img =
     (let aspect = real (img_width img) / real (img_height img)
      in if aspect \<ge> 1 then min (real (img_width img)) MAX_SIZE
         else round_quotient (quotient_low env img) (MAX_SIZE * aspect))"

definition targetHeight :: "face_env \<Rightarrow> image \<Rightarrow> real" where
  "targetHeight env img =
     (let aspect = real (img_width img) / real (img_height img)
      in if aspect \<ge> 1 then round_quotient (quotient_low env img) (MAX_SIZE / aspect)
         else min (real (img_height img)) MAX_SIZE)"

text \<open>The source handed to the detector, with \<^verbatim>\<open>scaleFactor\<close>.\<close>

definition detectSource :: "face_env \<Rightarrow> image \<Rightarrow> error + detect_source \<times> real" where
  "detectSource env img =
     (if real (img_width img) > MAX_SIZE \<or> real (img_height img) > MAX_SIZE
      then (let off_width = nat \<lfloor>targetWidth env img\<rfloor>; off_height = nat \<lfloor>targetHeight env img\<rfloor>
            in if \<not> getContext env (off_width, off_height) then Inl NoContext2D
               else Inr (SourceCanvas \<lparr>cv_width = off_width, cv_height = off_height,
                                       cv_ops = [DrawImageTo img 0 0 (targetWidth env img) (targetHeight env img)]\<rparr>,
                         targetWidth env img / real (img_width img)))
      else Inr (SourceImage img, 1))"

text \<open>
  \<^verbatim>\<open>Array.prototype.sort\<close> with a comparator is stable: of two elements that the comparator
  does not order, the one that came first stays first.
\<close>

fun js_insert :: "('a \<Rightarrow> 'a \<Rightarrow> real) \<Rightarrow> 'a \<Rightarrow> 'a list \<Rightarrow> 'a list" where
  "js_insert cmp x [] = [x]"
| "js_insert cmp x (y # ys) = (if cmp x y \<le> 0 then x # y # ys else y # js_insert cmp x ys)"

definition js_sort :: "('a \<Rightarrow> 'a \<Rightarrow> real) \<Rightarrow> 'a list \<Rightarrow> 'a list" where
  "js_sort cmp xs = foldr (js_insert cmp) xs []"

definition area_cmp :: "box \<Rightarrow> box \<Rightarrow> real" where
  "area_cmp a b = box_width b * box_height b - box_width a * box_height a"

text \<open>The area of a bounding box, the quantity that the comparator subtracts.\<close>

definition box_area :: "box \<Rightarrow> real" where
  "box_area b = box_width b * box_height b"

text \<open>\<^verbatim>\<open>detections.sort(...)[0]\<close>: \<open>None\<close> is \<^verbatim>\<open>undefined\<close>.\<close>

definition bestDetection :: "box list \<Rightarrow> box option" where
  "bestDetection detections =
     (case js_sort area_cmp detections of [] \<Rightarrow> None | best # rest \<Rightarrow> Some best)"

definition rescaleBox :: "real \<Rightarrow> box \<Rightarrow> box" where
  "rescaleBox scaleFactor detBox =
     (let inv = 1 / scaleFactor
      in \<lparr>box_x = box_x detBox * inv, box_y = box_y detBox * inv,
          box_width = box_width detBox * inv, box_height = box_height detBox * inv\<rparr>)"

definition targetFill :: real where "targetFill = 1 / 2"

definition frameScale :: "nat \<Rightarrow> nat \<Rightarrow> box \<Rightarrow> real" where
  "frameScale containerWidth containerHeight b =
     min (real containerWidth * targetFill / box_width b)
         (real containerHeight * targetFill / box_height b)"

text \<open>
  The canvas of the success path. The container's sizes are pixel counts, so the canvas
  has exactly these dimensions.
\<close>

definition frameCanvas :: "image \<Rightarrow> nat \<Rightarrow> nat \<Rightarrow> box \<Rightarrow> canvas" where
  "frameCanvas img containerWidth containerHeight b =
     (let scale = frameScale containerWidth containerHeight b;
          faceCenterX = box_x b + box_width b / 2;
          faceCenterY = box_y b + box_height b / 2;
          offsetX = real containerWidth / 2 - faceCenterX * scale;
          offsetY = real containerHeight / 2 - faceCenterY * scale
      in \<lparr>cv_width = containerWidth, cv_height = containerHeight,
          cv_ops = [DrawImageTo img offsetX offsetY
                      (real (img_width img) * scale) (real (img_height img) * scale)]\<rparr>)"

definition centerCropFace ::
  "face_env \<Rightarrow> bool option \<Rightarrow> upload_file \<Rightarrow> nat \<Rightarrow> nat \<Rightarrow> (error + url) \<times> bool option" where
  "centerCropFace env modelsLoadedPromise imgFile containerWidth containerHeight =
     (case ensureModelsLoaded env modelsLoadedPromise of
        (loaded, promise) \<Rightarrow>
          if \<not> loaded then (Inr (ObjectURL imgFile), promise)
          else (case bufferToImage env imgFile of
                  None \<Rightarrow> (Inl DecodeError, promise)
                | Some img \<Rightarrow>
                    (case detectSource env img of
                       Inl e \<Rightarrow> (Inl e, promise)
                     | Inr (source, scaleFactor) \<Rightarrow>
                         (case detectAllFaces env source of
                            Inl msg \<Rightarrow> (Inr (ObjectURL imgFile), promise)
                          | Inr detections \<Rightarrow>
                              if detections = [] then (Inr (ObjectURL imgFile), promise)
                              else (case bestDetection detections of
                                      None \<Rightarrow> (Inl TypeError, promise)
                                    | Some detBox \<Rightarrow>
                                        if \<not> getContext env (containerWidth, containerHeight)
                                        then (Inl NoContext2D, promise)
                                        else (Inr (DataURL (frameCanvas img containerWidth containerHeight
                                                              (rescaleBox scaleFactor detBox))),
                                              promise))))))"

section \<open>Cover-fit: the crop has the destination's ratio and is centred\<close>

text \<open>
  C1. For an image of positive dimensions \<open>iw \<times> ih\<close> and a destination of positive
  dimensions \<open>dw \<times> dh\<close>, \<^verbatim>\<open>drawImageCover\<close> issues one nine-argument \<^verbatim>\<open>drawImage\<close>
  whose source rectangle \<open>(sx, sy, sw, sh)\<close> has \<open>sw / sh = dw / dh\<close> (exactly, in the
  idealised arithmetic). When \<open>iw / ih > dw / dh\<close> it is \<open>sh = ih\<close>, \<open>sw = sh * dRatio\<close>,
  \<open>sx = (iw - sw) / 2\<close>, \<open>sy = 0\<close>; otherwise \<open>sw = iw\<close>, \<open>sh = sw / dRatio\<close>,
  \<open>sy = (ih - sh) / 2\<close>, \<open>sx = 0\<close>. The margin cut on either side of the cropped axis is
  the same.
\<close>

theorem drawImageCover_centred_crop:
  assumes "0 < img_width img" and "0 < img_height img" and "0 < dw" and "0 < dh"
  shows "\<exists>sx sy sw sh.
           drawImageCover img dx dy dw dh = DrawImage img sx sy sw sh dx dy dw dh \<and>
           sw / sh = dw / dh \<and>
           (if real (img_width img) / real (img_height img) > dw / dh
            then sh = real (img_height img) \<and> sw = sh * (dw / dh) \<and>
                 sx = (real (img_width img) - sw) / 2 \<and> sy = 0 \<and>
                 real (img_width img) - (sx + sw) = sx
            else sw = real (img_width img) \<and> sh = sw / (dw / dh) \<and>
                 sy = (real (img_height img) - sh) / 2 \<and> sx = 0 \<and>
                 real (img_height img) - (sy + sh) = sy)"
proof (cases "real (img_width img) / real (img_height img) > dw / dh")
  case True
  define sh where "sh = real (img_height img)"
  define sw where "sw = sh * (dw / dh)"
  define sx where "sx = (real (img_width img) - sw) / 2"
  have draw: "drawImageCover img dx dy dw dh = DrawImage img sx 0 sw sh dx dy dw dh"
    using True by (simp add: drawImageCover_def Let_def sh_def sw_def sx_def)
  have ratio: "sw / sh = dw / dh"
    using assms(2) by (simp add: sw_def sh_def)
  have margin: "real (img_width img) - (sx + sw) = sx"
    by (simp add: sx_def field_simps)
  have "drawImageCover img dx dy dw dh = DrawImage img sx 0 sw sh dx dy dw dh \<and>
        sw / sh = dw / dh \<and>
        (if real (img_width img) / real (img_height img) > dw / dh
         then sh = real (img_height img) \<and> sw = sh * (dw / dh) \<and>
              sx = (real (img_width img) - sw) / 2 \<and> (0::real) = 0 \<and>
              real (img_width img) - (sx + sw) = sx
         else sw = real (img_width img) \<and> sh = sw / (dw / dh) \<and>
              0 = (real (img_height img) - sh) / 2 \<and> sx = 0 \<and>
              real (img_height img) - (0 + sh) = 0)"
    using True draw ratio margin sh_def sw_def sx_def by simp
  then show ?thesis by blast
next
  case False
  define sw where "sw = real (img_width img)"
  define sh where "sh = sw / (dw / dh)"
  define sy where "sy = (real (img_height img) - sh) / 2"
  have draw: "drawImageCover img dx dy dw dh = DrawImage img 0 sy sw sh dx dy dw dh"
    using False by (simp add: drawImageCover_def Let_def sh_def sw_def sy_def)
  have ratio: "sw / sh = dw / dh"
    using assms by (simp add: sw_def sh_def)
  have margin: "real (img_height img) - (sy + sh) = sy"
    by (simp add: sy_def field_simps)
  have "drawImageCover img dx dy dw dh = DrawImage img 0 sy sw sh dx dy dw dh \<and>
        sw / sh = dw / dh \<and>
        (if real (img_width img) / real (img_height img) > dw / dh
         then sh = real (img_height img) \<and> sw = sh * (dw / dh) \<and>
              0 = (real (img_width img) - sw) / 2 \<and> sy = 0 \<and>
              real (img_width img) - (0 + sw) = 0
         else sw = real (img_width img) \<and> sh = sw / (dw / dh) \<and>
              sy = (real (img_height img) - sh) / 2 \<and> (0::real) = 0 \<and>
              real (img_height img) - (sy + sh) = sy)"
    using False draw ratio margin sh_def sw_def sy_def by simp
  then show ?thesis by blast
qed

theorem drawImageCover_centred_crop_witness:
  "drawImageCover \<lparr>img_src = ''a'', img_width = 400, img_height = 100\<rparr> 0 0 100 50
     = DrawImage \<lparr>img_src = ''a'', img_width = 400, img_height = 100\<rparr> 100 0 200 100 0 0 100 50"
  using drawImageCover_centred_crop
    [of "\<lparr>img_src = ''a'', img_width = 400, img_height = 100\<rparr>" 100 50 0 0]
  by (simp add: drawImageCover_def Let_def)

section \<open>Destination rectangles: rounding, gaps and the canvas edge\<close>

lemma Math_round_near:
  assumes "- (1 / 2) \<le> x" and "x < 1 / 2"
  shows "Math_round (real n + x) = real n"
proof -
  have "\<lfloor>real n + x + 1 / 2\<rfloor> = int n"
    using assms by (simp add: floor_eq_iff)
  then show ?thesis by (simp add: Math_round_def)
qed

lemma Math_round_near_sub:
  assumes "0 \<le> y" and "y \<le> 1 / 2"
  shows "Math_round (real n - y) = real n"
proof -
  have "\<lfloor>real n - y + 1 / 2\<rfloor> = int n"
    using assms by (simp add: floor_eq_iff)
  then show ?thesis by (simp add: Math_round_def)
qed

text \<open>
  In template 75 the gap is between a quarter and a half of a logical pixel, whatever the
  device pixel ratio, so rounding in logical units removes it: every cell gets the whole
  of its grid footprint.
\<close>

lemma gap75_bounds: "1 / 4 \<le> gap75 dpr \<and> gap75 dpr \<le> 1 / 2"
proof -
  have "2 \<le> scale75 dpr" "scale75 dpr \<le> 4"
    by (simp_all add: scale75_def)
  then show ?thesis
    by (simp add: gap75_def desiredGapPx75_def field_simps)
qed

lemma cellRect75_footprint:
  "cellRect75 dpr r c rs cs = (real c * 100, real r * 100, real cs * 100, real rs * 100)"
proof -
  let ?g = "gap75 dpr"
  have g: "1 / 4 \<le> ?g" "?g \<le> 1 / 2" using gap75_bounds by simp_all
  have lg: "0 \<le> leftGap ?g c" "leftGap ?g c \<le> 1 / 4"
    using g by (simp_all add: leftGap_def)
  have rg: "0 \<le> rightGap cols75 ?g c cs" "rightGap cols75 ?g c cs \<le> 1 / 4"
    using g by (simp_all add: rightGap_def)
  have tg: "0 \<le> topGap ?g r" "topGap ?g r \<le> 1 / 4"
    using g by (simp_all add: topGap_def)
  have bg: "0 \<le> bottomGap rows75 ?g r rs" "bottomGap rows75 ?g r rs \<le> 1 / 4"
    using g by (simp_all add: bottomGap_def)
  have dx: "Math_round (real c * 100 + leftGap ?g c) = real c * 100"
    using Math_round_near [of "leftGap ?g c" "c * 100"] lg by simp
  have dy: "Math_round (real r * 100 + topGap ?g r) = real r * 100"
    using Math_round_near [of "topGap ?g r" "r * 100"] tg by simp
  have dw: "Math_round (real cs * 100 - (leftGap ?g c + rightGap cols75 ?g c cs)) = real cs * 100"
    using Math_round_near_sub [of "leftGap ?g c + rightGap cols75 ?g c cs" "cs * 100"] lg rg
    by simp
  have dh: "Math_round (real rs * 100 - (topGap ?g r + bottomGap rows75 ?g r rs)) = real rs * 100"
    using Math_round_near_sub [of "topGap ?g r + bottomGap rows75 ?g r rs" "rs * 100"] tg bg
    by simp
  show ?thesis
    by (simp add: cellRect75_def cellRect_def Let_def base75_def dx dy dw dh)
qed

lemma Math_round_mono: "x \<le> y \<Longrightarrow> Math_round x \<le> Math_round y"
  by (simp add: Math_round_def floor_mono)

lemma Math_round_shift: "Math_round (real n + x) = real n + Math_round x"
  by (simp add: Math_round_def add.assoc)

lemma Math_round_zero: "Math_round 0 = 0"
  by (simp add: Math_round_def)

lemma Math_round_nonpos: "x \<le> 0 \<Longrightarrow> Math_round x \<le> 0"
  using Math_round_mono [of x 0] by (simp add: Math_round_zero)

text \<open>
  Rounding keeps the order of the edges: where one placement ends on the grid at or before
  the column (row) where another begins, its rounded right (bottom) edge is at or before
  the other's rounded left (top) edge. So placements that do not overlap on the grid get
  rectangles that do not overlap, for every gap that is not negative and every whole cell
  size.
\<close>

lemma edges_ordered:
  assumes "0 \<le> gap" and "c + cs \<le> c'" and "c' + cs' \<le> cols" and "0 < cs'"
  shows "Math_round (real c * real b + leftGap gap c)
           + Math_round (real cs * real b - (leftGap gap c + rightGap cols gap c cs))
         \<le> Math_round (real c' * real b + leftGap gap c')"
proof -
  have rg: "rightGap cols gap c cs = gap / 2"
    using assms by (simp add: rightGap_def)
  have lg': "leftGap gap c' = gap / 2 \<or> (c' = 0 \<and> c = 0 \<and> cs = 0)"
    using assms by (auto simp: leftGap_def)
  have a: "Math_round (real c * real b + leftGap gap c) = real (c * b) + Math_round (leftGap gap c)"
    using Math_round_shift [of "c * b" "leftGap gap c"] by simp
  have w: "Math_round (real cs * real b - (leftGap gap c + rightGap cols gap c cs))
             = real (cs * b) + Math_round (- (leftGap gap c + gap / 2))"
  proof -
    have "real cs * real b - (leftGap gap c + rightGap cols gap c cs)
            = real (cs * b) + (- (leftGap gap c + gap / 2))"
      by (simp add: rg)
    then show ?thesis by (simp only: Math_round_shift)
  qed
  have r: "Math_round (real c' * real b + leftGap gap c') = real (c' * b) + Math_round (leftGap gap c')"
    using Math_round_shift [of "c' * b" "leftGap gap c'"] by simp
  have n: "real (c * b) + real (cs * b) \<le> real (c' * b)"
  proof -
    have "(c + cs) * b \<le> c' * b" using assms(2) by (rule mult_le_mono1)
    then have "real ((c + cs) * b) \<le> real (c' * b)" by (simp only: of_nat_le_iff)
    then show ?thesis by (simp add: add_mult_distrib)
  qed
  have g: "Math_round (leftGap gap c) + Math_round (- (leftGap gap c + gap / 2))
             \<le> Math_round (leftGap gap c')"
  proof (cases "c = 0")
    case True
    have "Math_round (- (gap / 2)) \<le> Math_round (leftGap gap c')"
      using assms(1) by (intro Math_round_mono) (simp add: leftGap_def)
    then show ?thesis using True by (simp add: leftGap_def Math_round_zero)
  next
    case False
    then have c': "c' \<noteq> 0" using assms(2) by simp
    have "Math_round (- gap) \<le> 0"
      using assms(1) by (intro Math_round_nonpos) simp
    then show ?thesis using False c' by (simp add: leftGap_def)
  qed
  show ?thesis unfolding a w r using n g by linarith
qed

lemma topGap_leftGap: "topGap gap r = leftGap gap r"
  by (simp add: topGap_def leftGap_def)

lemma bottomGap_rightGap: "bottomGap rows gap r rs = rightGap rows gap r rs"
  by (simp add: bottomGap_def rightGap_def)

lemma cellRect_disjoint:
  assumes "0 \<le> gap"
    and "c + cs \<le> cols" and "c' + cs' \<le> cols" and "r + rs \<le> rows" and "r' + rs' \<le> rows"
    and "0 < cs" and "0 < cs'" and "0 < rs" and "0 < rs'"
    and "c + cs \<le> c' \<or> c' + cs' \<le> c \<or> r + rs \<le> r' \<or> r' + rs' \<le> r"
  shows "rect_disjoint (cellRect cols rows (real b) gap r c rs cs)
                       (cellRect cols rows (real b) gap r' c' rs' cs')"
proof -
  have h1: "c + cs \<le> c' \<Longrightarrow> ?thesis"
    using edges_ordered [OF assms(1) _ assms(3) assms(7), of c cs b]
    by (simp add: rect_disjoint_def cellRect_def Let_def rect_right_def rect_left_def)
  have h2: "c' + cs' \<le> c \<Longrightarrow> ?thesis"
    using edges_ordered [OF assms(1) _ assms(2) assms(6), of c' cs' b]
    by (simp add: rect_disjoint_def cellRect_def Let_def rect_right_def rect_left_def)
  have v1: "r + rs \<le> r' \<Longrightarrow> ?thesis"
    using edges_ordered [OF assms(1) _ assms(5) assms(9), of r rs b]
    by (simp add: rect_disjoint_def cellRect_def Let_def rect_bottom_def rect_top_def
        topGap_leftGap bottomGap_rightGap)
  have v2: "r' + rs' \<le> r \<Longrightarrow> ?thesis"
    using edges_ordered [OF assms(1) _ assms(4) assms(8), of r' rs' b]
    by (simp add: rect_disjoint_def cellRect_def Let_def rect_bottom_def rect_top_def
        topGap_leftGap bottomGap_rightGap)
  show ?thesis using assms(10) h1 h2 v1 v2 by blast
qed


text \<open>
  A gap of a whole number of pixels is kept exactly between two cells that are adjacent
  on the grid; template 33, with its gap of 1 px, is such a case.
\<close>

lemma Math_round_half_up: "Math_round (real g / 2) = of_int ((int g + 1) div 2)"
proof -
  have "real g / 2 + 1 / 2 = of_int (int g + 1) / of_int 2" by simp
  then have "\<lfloor>real g / 2 + 1 / 2\<rfloor> = (int g + 1) div 2"
    by (simp only: floor_divide_of_int_eq)
  then show ?thesis by (simp add: Math_round_def)
qed

lemma Math_round_half_down: "Math_round (- (real g / 2)) = of_int ((1 - int g) div 2)"
proof -
  have "- (real g / 2) + 1 / 2 = of_int (1 - int g) / of_int 2" by simp
  then have "\<lfloor>- (real g / 2) + 1 / 2\<rfloor> = (1 - int g) div 2"
    by (simp only: floor_divide_of_int_eq)
  then show ?thesis by (simp add: Math_round_def)
qed

lemma Math_round_halves: "Math_round (real g / 2) - Math_round (- (real g / 2)) = real g"
proof -
  have "(int g + 1) div 2 - (1 - int g) div 2 = int g" by presburger
  then have "real_of_int ((int g + 1) div 2 - (1 - int g) div 2) = real_of_int (int g)"
    by (simp only:)
  then show ?thesis by (simp add: Math_round_half_up Math_round_half_down)
qed

lemma Math_round_neg_whole: "Math_round (- real g) = - real g"
proof -
  have "\<lfloor>- real g + 1 / 2\<rfloor> = - int g" by (simp add: floor_eq_iff)
  then show ?thesis by (simp add: Math_round_def)
qed

lemma whole_gap_kept:
  assumes "c + cs = c'" and "c' + cs' \<le> cols" and "0 < cs" and "0 < cs'"
  shows "rect_left (cellRect cols rows (real b) (real g) r' c' rs' cs')
           - rect_right (cellRect cols rows (real b) (real g) r c rs cs) = real g"
proof -
  have rg: "rightGap cols (real g) c cs = real g / 2"
    using assms by (simp add: rightGap_def)
  have lg': "leftGap (real g) c' = real g / 2"
    using assms by (simp add: leftGap_def)
  have a: "Math_round (real c * real b + leftGap (real g) c)
             = real (c * b) + Math_round (leftGap (real g) c)"
    using Math_round_shift [of "c * b" "leftGap (real g) c"] by simp
  have w: "Math_round (real cs * real b - (leftGap (real g) c + rightGap cols (real g) c cs))
             = real (cs * b) + Math_round (- (leftGap (real g) c + real g / 2))"
  proof -
    have "real cs * real b - (leftGap (real g) c + rightGap cols (real g) c cs)
            = real (cs * b) + (- (leftGap (real g) c + real g / 2))"
      by (simp add: rg)
    then show ?thesis by (simp only: Math_round_shift)
  qed
  have l: "Math_round (real c' * real b + leftGap (real g) c')
             = real (c' * b) + Math_round (real g / 2)"
    using Math_round_shift [of "c' * b" "real g / 2"] by (simp add: lg')
  have n: "real (c' * b) = real (c * b) + real (cs * b)"
  proof -
    have "c' * b = c * b + cs * b"
      using assms(1) by (simp add: add_mult_distrib flip: assms(1))
    then have "real (c' * b) = real (c * b + cs * b)" by (simp only:)
    then show ?thesis by (simp only: of_nat_add)
  qed
  have d: "Math_round (real g / 2) - Math_round (leftGap (real g) c)
             - Math_round (- (leftGap (real g) c + real g / 2)) = real g"
  proof (cases "c = 0")
    case True
    then show ?thesis using Math_round_halves [of g] by (simp add: leftGap_def Math_round_zero)
  next
    case False
    then show ?thesis using Math_round_neg_whole [of g] by (simp add: leftGap_def)
  qed
  have "rect_left (cellRect cols rows (real b) (real g) r' c' rs' cs')
           - rect_right (cellRect cols rows (real b) (real g) r c rs cs)
        = Math_round (real c' * real b + leftGap (real g) c')
            - (Math_round (real c * real b + leftGap (real g) c)
               + Math_round (real cs * real b - (leftGap (real g) c + rightGap cols (real g) c cs)))"
    by (simp add: cellRect_def Let_def rect_left_def rect_right_def)
  also have "\<dots> = real g" unfolding a w l n using d by linarith
  finally show ?thesis .
qed

text \<open>
  C2. The claim asks that two cells adjacent on the grid have their nearest edges exactly
  the gap apart. In template 75 at a device pixel ratio of 2 the gap is half a logical
  pixel (one device pixel), yet the cells at row 1, columns 0 and 1 get the rectangles
  \<open>(0, 100, 100, 100)\<close> and \<open>(100, 100, 100, 100)\<close>: the right edge of the first is the
  left edge of the second, and no gap is left between them.
\<close>

theorem cellRect75_adjacent_cells_touch:
  "gap75 2 = 1 / 2 \<and>
   cellRect75 2 1 0 1 1 = (0, 100, 100, 100) \<and>
   cellRect75 2 1 1 1 1 = (100, 100, 100, 100) \<and>
   rect_left (cellRect75 2 1 1 1 1) - rect_right (cellRect75 2 1 0 1 1) = 0"
  by (simp add: cellRect75_def cellRect_def Let_def leftGap_def rightGap_def topGap_def
      bottomGap_def cols75_def rows75_def base75_def gap75_def scale75_def desiredGapPx75_def
      Math_round_def rect_left_def rect_right_def)

text \<open>
  The gap contribution of a side is half the gap towards the interior and nothing on the
  grid boundary, and the left and top edges of a cell in column 0 or row 0 are the
  canvas's.
\<close>

lemma gap_contributions:
  "leftGap gap c = (if c = 0 then 0 else gap / 2) \<and>
   rightGap cols gap c cs = (if c + cs = cols then 0 else gap / 2) \<and>
   topGap gap r = (if r = 0 then 0 else gap / 2) \<and>
   bottomGap rows gap r rs = (if r + rs = rows then 0 else gap / 2)"
  by (simp add: leftGap_def rightGap_def topGap_def bottomGap_def)

lemma cellRect_left_top_edge:
  "rect_left (cellRect cols rows base gap r 0 rs cs) = 0 \<and>
   rect_top (cellRect cols rows base gap 0 c rs cs) = 0"
  by (simp add: cellRect_def Let_def rect_left_def rect_top_def leftGap_def topGap_def
      Math_round_def)

lemma cellRect_3x3_gap4_corner: "cellRect 3 3 100 4 0 0 1 1 = (0, 0, 98, 98)"
  by (simp add: cellRect_def Let_def leftGap_def rightGap_def topGap_def bottomGap_def
      Math_round_def)

text \<open>
  C3. The claim asks that the edge of a boundary cell is the canvas edge. In template 33
  (8 columns of 100 px, a gap of 1 px, a canvas 800 px wide) the cell at row 0 in the last
  column, drawn by \<^verbatim>\<open>drawKey(key, 0, 7)\<close>, gets the rectangle \<open>(701, 0, 100, 100)\<close>: its
  left edge is rounded up from 700.5 and its width up from 99.5, so its right edge is at
  801, one pixel beyond the canvas.
\<close>

theorem cellRect33_last_column_overshoots:
  "cellRect33 0 7 1 1 = (701, 0, 100, 100) \<and>
   rect_right (cellRect33 0 7 1 1) = 801 \<and>
   width33 = 800"
  by (simp add: rect_right_def width33_def cellRect33_def cellRect_def Let_def leftGap_def
      rightGap_def topGap_def bottomGap_def cols33_def rows33_def base33_def gap33_def
      Math_round_def)

section \<open>Export reads the images only\<close>

lemma drawKey33_images_only:
  "cellImages s1 = cellImages s2 \<Longrightarrow>
   drawKey33 loadImage s1 cellKey r c rs cs ops = drawKey33 loadImage s2 cellKey r c rs cs ops"
  by (simp add: drawKey33_def)

lemma drawKeys33_images_only:
  "cellImages s1 = cellImages s2 \<Longrightarrow>
   drawKeys33 loadImage s1 calls ops = drawKeys33 loadImage s2 calls ops"
proof (induction calls arbitrary: ops)
  case Nil
  show ?case by simp
next
  case (Cons call calls)
  obtain cellKey r c rs cs where call: "call = (cellKey, r, c, rs, cs)"
    by (cases call) auto
  show ?case
    using Cons drawKey33_images_only [of s1 s2 loadImage cellKey r c rs cs ops]
    by (simp add: call split: sum.splits)
qed

lemma drawKeys33_cover_ops:
  "drawKeys33 loadImage s calls ops = Inr ops' \<Longrightarrow>
   ops' = ops @ cover_ops loadImage (cellImages s) calls"
proof (induction calls arbitrary: ops)
  case Nil
  then show ?case by simp
next
  case (Cons call calls)
  obtain cellKey r c rs cs where call: "call = (cellKey, r, c, rs, cs)"
    by (cases call) auto
  from Cons.prems obtain mid where
    mid: "drawKey33 loadImage s cellKey r c rs cs ops = Inr mid" and
    rest: "drawKeys33 loadImage s calls mid = Inr ops'"
    by (auto simp: call split: sum.splits)
  have "mid = ops @ cover_ops loadImage (cellImages s) [(cellKey, r, c, rs, cs)]"
    using mid by (auto simp: drawKey33_def split: option.splits if_splits prod.splits)
  moreover have "ops' = mid @ cover_ops loadImage (cellImages s) calls"
    using Cons.IH [OF rest] .
  ultimately show ?case by (simp add: call)
qed

text \<open>
  C4. Two states of the component that hold the same images, whatever their pan offsets
  (and whatever else differs), export the same canvas: the same drawing calls or the same
  failure. An export that succeeds makes the white fill and then, for each cell that has
  an image, the centred cover crop of that image into the cell's rectangle; no call
  depends on \<^verbatim>\<open>cellOffsets\<close>.
\<close>

theorem export_ignores_offsets:
  assumes "cellImages s1 = cellImages s2"
  shows "renderGridToCanvas33 gc loadImage s1 = renderGridToCanvas33 gc loadImage s2 \<and>
         (\<forall>cv. renderGridToCanvas33 gc loadImage s1 = Inr cv \<longrightarrow>
               cv_ops cv = FillRect ''#ffffff'' 0 0 width33 height33
                           # cover_ops loadImage (cellImages s2) calls33)"
proof -
  have same: "renderGridToCanvas33 gc loadImage s1 = renderGridToCanvas33 gc loadImage s2"
    using drawKeys33_images_only [OF assms, of loadImage calls33]
    by (simp add: renderGridToCanvas33_def)
  have ops: "cv_ops cv = FillRect ''#ffffff'' 0 0 width33 height33
                           # cover_ops loadImage (cellImages s2) calls33"
    if "renderGridToCanvas33 gc loadImage s1 = Inr cv" for cv
  proof -
    from that obtain ops' where
      d: "drawKeys33 loadImage s1 calls33 [FillRect ''#ffffff'' 0 0 width33 height33] = Inr ops'"
      and cv: "cv_ops cv = ops'"
      by (auto simp: renderGridToCanvas33_def split: if_splits sum.splits)
    show ?thesis
      using drawKeys33_cover_ops [OF d] cv assms by simp
  qed
  show ?thesis using same ops by blast
qed

lemma calls33_unfold: "calls33 = [(''grid-33:top:0-0'', 0, 0, 1, 1), (''grid-33:top:0-1'', 0, 1, 1, 1),
  (''grid-33:top:0-2'', 0, 2, 1, 1), (''grid-33:top:0-3'', 0, 3, 1, 1),
  (''grid-33:top:0-4'', 0, 4, 1, 1), (''grid-33:top:0-5'', 0, 5, 1, 1),
  (''grid-33:top:0-6'', 0, 6, 1, 1), (''grid-33:top:0-7'', 0, 7, 1, 1),
  (''grid-33:left:1-0'', 1, 0, 1, 1), (''grid-33:center:0-0'', 1, 1, 8, 6),
  (''grid-33:right:1-7'', 1, 7, 1, 1), (''grid-33:left:2-0'', 2, 0, 1, 1),
  (''grid-33:right:2-7'', 2, 7, 1, 1), (''grid-33:left:3-0'', 3, 0, 1, 1),
  (''grid-33:right:3-7'', 3, 7, 1, 1), (''grid-33:left:4-0'', 4, 0, 1, 1),
  (''grid-33:right:4-7'', 4, 7, 1, 1), (''grid-33:left:5-0'', 5, 0, 1, 1),
  (''grid-33:right:5-7'', 5, 7, 1, 1), (''grid-33:left:6-0'', 6, 0, 1, 1),
  (''grid-33:right:6-7'', 6, 7, 1, 1), (''grid-33:left:7-0'', 7, 0, 1, 1),
  (''grid-33:right:7-7'', 7, 7, 1, 1), (''grid-33:left:8-0'', 8, 0, 1, 1),
  (''grid-33:right:8-7'', 8, 7, 1, 1), (''grid-33:bottom:9-0'', 9, 0, 1, 1),
  (''grid-33:bottom:9-1'', 9, 1, 1, 1),
  (''grid-33:bottom:9-2'', 9, 2, 1, 1),
  (''grid-33:bottom:9-3'', 9, 3, 1, 1),
  (''grid-33:bottom:9-4'', 9, 4, 1, 1),
  (''grid-33:bottom:9-5'', 9, 5, 1, 1),
  (''grid-33:bottom:9-6'', 9, 6, 1, 1),
  (''grid-33:bottom:9-7'', 9, 7, 1, 1)]"
  by (simp add: calls33_def cid33_def upt_rec show_digit_def)

theorem export_ignores_offsets_witness:
  "renderGridToCanvas33 True (\<lambda>src. Some \<lparr>img_src = src, img_width = 400, img_height = 100\<rparr>)
     (initial_state\<lparr>cellImages := [''grid-33:top:0-7'' \<mapsto> ''data:a''],
                    cellOffsets := [''grid-33:top:0-7'' \<mapsto> (10, 90)]\<rparr>)
   = renderGridToCanvas33 True (\<lambda>src. Some \<lparr>img_src = src, img_width = 400, img_height = 100\<rparr>)
     (initial_state\<lparr>cellImages := [''grid-33:top:0-7'' \<mapsto> ''data:a'']\<rparr>) \<and>
   renderGridToCanvas33 True (\<lambda>src. Some \<lparr>img_src = src, img_width = 400, img_height = 100\<rparr>)
     (initial_state\<lparr>cellImages := [''grid-33:top:0-7'' \<mapsto> ''data:a'']\<rparr>)
   = Inr \<lparr>cv_width = 800, cv_height = 1000,
          cv_ops = [FillRect ''#ffffff'' 0 0 800 1000,
                    DrawImage \<lparr>img_src = ''data:a'', img_width = 400, img_height = 100\<rparr>
                      150 0 100 100 701 0 100 100]\<rparr>"
  using export_ignores_offsets
    [of "initial_state\<lparr>cellImages := [''grid-33:top:0-7'' \<mapsto> ''data:a''],
                       cellOffsets := [''grid-33:top:0-7'' \<mapsto> (10, 90)]\<rparr>"
        "initial_state\<lparr>cellImages := [''grid-33:top:0-7'' \<mapsto> ''data:a'']\<rparr>"
        True "\<lambda>src. Some \<lparr>img_src = src, img_width = 400, img_height = 100\<rparr>"]
  by (simp add: renderGridToCanvas33_def calls33_unfold drawKey33_def cellRect33_def cellRect_def
      Let_def leftGap_def rightGap_def topGap_def bottomGap_def cols33_def rows33_def base33_def
      gap33_def Math_round_def drawImageCover_def width33_def height33_def initial_state_def)

section \<open>Upload: the image is replaced, the offsets are kept\<close>

lemma handleImageUpload_offsets:
  "cellOffsets (fst (handleImageUpload file s)) = cellOffsets s"
  by (simp add: handleImageUpload_def split: option.splits)

lemma reader_onload_offsets: "cellOffsets (reader_onload sel imageUrl s) = cellOffsets s"
  by (simp add: reader_onload_def)

lemma upload_offsets: "cellOffsets (upload readAsDataURL cellKey f s) = cellOffsets s"
  by (simp add: upload_def handleImageUpload_def handleCellClick_def reader_onload_def
      split: option.splits prod.splits)

lemma upload_images:
  "cellImages (upload readAsDataURL cellKey f s) =
     (if cellKey \<noteq> [] \<and> startsWith (file_type f) ''image/''
      then (cellImages s)(cellKey \<mapsto> readAsDataURL f) else cellImages s)"
  by (simp add: upload_def handleImageUpload_def handleCellClick_def reader_onload_def)

text \<open>
  C6. An upload never changes \<^verbatim>\<open>cellOffsets\<close>: not \<^verbatim>\<open>handleImageUpload\<close>, not the reader's
  \<^verbatim>\<open>onload\<close>, not the two together; an offset stored for the key stays and none is
  created. After two uploads to the same key, the second of an image file, the images are
  those before the uploads with the key mapped to the second file's data URL: the first
  upload leaves no trace.
\<close>

theorem upload_replaces_image_keeps_offsets:
  "cellOffsets (upload readAsDataURL cellKey f s) = cellOffsets s \<and>
   cellOffsets (fst (handleImageUpload file s)) = cellOffsets s \<and>
   cellOffsets (reader_onload sel imageUrl s) = cellOffsets s \<and>
   (cellKey \<noteq> [] \<and> startsWith (file_type newer) ''image/'' \<longrightarrow>
      cellImages (upload readAsDataURL cellKey newer (upload readAsDataURL cellKey older s))
        = (cellImages s)(cellKey \<mapsto> readAsDataURL newer) \<and>
      cellImages (upload readAsDataURL cellKey newer (upload readAsDataURL cellKey older s)) cellKey
        = Some (readAsDataURL newer))"
  by (simp add: upload_offsets handleImageUpload_offsets reader_onload_offsets upload_images)

theorem upload_replaces_image_keeps_offsets_witness:
  "cellImages
     (upload (\<lambda>f. ''data:'' @ file_type f) ''A'' \<lparr>file_type = ''image/jpeg'', file_bytes = [2]\<rparr>
       (upload (\<lambda>f. ''data:'' @ file_type f) ''A'' \<lparr>file_type = ''image/png'', file_bytes = [1]\<rparr>
         (initial_state\<lparr>cellOffsets := [''A'' \<mapsto> (10, 20)]\<rparr>))) ''A''
     = Some ''data:image/jpeg'' \<and>
   cellOffsets
     (upload (\<lambda>f. ''data:'' @ file_type f) ''A'' \<lparr>file_type = ''image/jpeg'', file_bytes = [2]\<rparr>
       (upload (\<lambda>f. ''data:'' @ file_type f) ''A'' \<lparr>file_type = ''image/png'', file_bytes = [1]\<rparr>
         (initial_state\<lparr>cellOffsets := [''A'' \<mapsto> (10, 20)]\<rparr>))) ''A''
     = Some (10, 20)"
  using upload_replaces_image_keeps_offsets
    [where readAsDataURL = "\<lambda>f. ''data:'' @ file_type f" and cellKey = "''A''"
       and f = "\<lparr>file_type = ''image/jpeg'', file_bytes = [2]\<rparr>"
       and older = "\<lparr>file_type = ''image/png'', file_bytes = [1]\<rparr>"
       and newer = "\<lparr>file_type = ''image/jpeg'', file_bytes = [2]\<rparr>"
       and s = "initial_state\<lparr>cellOffsets := [''A'' \<mapsto> (10, 20)]\<rparr>"]
  by (simp add: startsWith_def initial_state_def upload_def handleImageUpload_def
      handleCellClick_def reader_onload_def)

section \<open>The face-centring cropper: fallback, selection, rescaling, background\<close>

text \<open>
  C7. When the models fail to load (now, or in an earlier call whose rejected promise is
  kept), \<^verbatim>\<open>centerCropFace\<close> returns a URL of the file it was given. When they are loaded
  and the detector, run on the source prepared from the decoded image, throws or returns
  no detection, it returns a URL of the file too. In none of these cases does it throw.
\<close>

theorem centerCropFace_fallback:
  "(\<not> fst (ensureModelsLoaded env promise) \<longrightarrow>
      fst (centerCropFace env promise imgFile cw ch) = Inr (ObjectURL imgFile)) \<and>
   (fst (ensureModelsLoaded env promise) \<and> bufferToImage env imgFile = Some img \<and>
    detectSource env img = Inr (source, scaleFactor) \<and>
    (detectAllFaces env source = Inl msg \<or> detectAllFaces env source = Inr []) \<longrightarrow>
      fst (centerCropFace env promise imgFile cw ch) = Inr (ObjectURL imgFile))"
  by (auto simp: centerCropFace_def split: prod.splits)

theorem centerCropFace_fallback_witness:
  "fst (centerCropFace
          \<lparr>loadFromUri = False, bufferToImage = (\<lambda>f. None), getContext = (\<lambda>d. False),
           detectAllFaces = (\<lambda>src. Inr []),
           quotient_low = (\<lambda>i. True)\<rparr>
          None \<lparr>file_type = ''image/png'', file_bytes = [1, 2]\<rparr> 200 200)
     = Inr (ObjectURL \<lparr>file_type = ''image/png'', file_bytes = [1, 2]\<rparr>) \<and>
   fst (centerCropFace
          \<lparr>loadFromUri = True,
           bufferToImage = (\<lambda>f. Some \<lparr>img_src = ''blob'', img_width = 300, img_height = 200\<rparr>),
           getContext = (\<lambda>d. True), detectAllFaces = (\<lambda>src. Inl ''detector failed''),
           quotient_low = (\<lambda>i. True)\<rparr>
          None \<lparr>file_type = ''image/png'', file_bytes = [1, 2]\<rparr> 200 200)
     = Inr (ObjectURL \<lparr>file_type = ''image/png'', file_bytes = [1, 2]\<rparr>)"
  using centerCropFace_fallback
    [where env = "\<lparr>loadFromUri = False, bufferToImage = (\<lambda>f. None), getContext = (\<lambda>d. False),
                   detectAllFaces = (\<lambda>src. Inr []),
           quotient_low = (\<lambda>i. True)\<rparr>"
       and promise = None and imgFile = "\<lparr>file_type = ''image/png'', file_bytes = [1, 2]\<rparr>"
       and cw = 200 and ch = 200]
    centerCropFace_fallback
    [where env = "\<lparr>loadFromUri = True,
                   bufferToImage = (\<lambda>f. Some \<lparr>img_src = ''blob'', img_width = 300, img_height = 200\<rparr>),
                   getContext = (\<lambda>d. True), detectAllFaces = (\<lambda>src. Inl ''detector failed''),
           quotient_low = (\<lambda>i. True)\<rparr>"
       and promise = None and imgFile = "\<lparr>file_type = ''image/png'', file_bytes = [1, 2]\<rparr>"
       and cw = 200 and ch = 200
       and img = "\<lparr>img_src = ''blob'', img_width = 300, img_height = 200\<rparr>"
       and source = "SourceImage \<lparr>img_src = ''blob'', img_width = 300, img_height = 200\<rparr>"
       and scaleFactor = 1 and msg = "''detector failed''"]
  by (simp add: ensureModelsLoaded_def detectSource_def MAX_SIZE_def)

lemma area_cmp_le: "area_cmp a b \<le> 0 \<longleftrightarrow> box_area b \<le> box_area a"
  by (simp add: area_cmp_def box_area_def)

lemma bestDetection_Cons:
  "bestDetection (x # xs) =
     (case bestDetection xs of
        None \<Rightarrow> Some x
      | Some y \<Rightarrow> if box_area y \<le> box_area x then Some x else Some y)"
  by (cases "js_sort area_cmp xs") (simp_all add: bestDetection_def js_sort_def area_cmp_le)

lemma bestDetection_index:
  "ds \<noteq> [] \<Longrightarrow>
   \<exists>i<length ds. bestDetection ds = Some (ds ! i) \<and>
      (\<forall>j<length ds. box_area (ds ! j) \<le> box_area (ds ! i)) \<and>
      (\<forall>j<i. box_area (ds ! j) < box_area (ds ! i))"
proof (induction ds)
  case Nil
  then show ?case by simp
next
  case (Cons x xs)
  show ?case
  proof (cases "xs = []")
    case True
    then show ?thesis by (simp add: bestDetection_def js_sort_def)
  next
    case False
    from Cons.IH [OF False] obtain i where i: "i < length xs"
      and best: "bestDetection xs = Some (xs ! i)"
      and mx: "\<forall>j<length xs. box_area (xs ! j) \<le> box_area (xs ! i)"
      and fst: "\<forall>j<i. box_area (xs ! j) < box_area (xs ! i)"
      by blast
    show ?thesis
    proof (cases "box_area (xs ! i) \<le> box_area x")
      case True
      have "bestDetection (x # xs) = Some ((x # xs) ! 0)"
        using True best by (simp add: bestDetection_Cons)
      moreover have "\<forall>j<length (x # xs). box_area ((x # xs) ! j) \<le> box_area ((x # xs) ! 0)"
      proof (intro allI impI)
        fix j assume "j < length (x # xs)"
        then show "box_area ((x # xs) ! j) \<le> box_area ((x # xs) ! 0)"
          using mx True by (cases j) (auto intro: order_trans)
      qed
      ultimately show ?thesis by (intro exI [of _ 0]) simp
    next
      case False
      have b: "bestDetection (x # xs) = Some ((x # xs) ! Suc i)"
        using False best by (simp add: bestDetection_Cons)
      have m: "\<forall>j<length (x # xs). box_area ((x # xs) ! j) \<le> box_area ((x # xs) ! Suc i)"
      proof (intro allI impI)
        fix j assume "j < length (x # xs)"
        then show "box_area ((x # xs) ! j) \<le> box_area ((x # xs) ! Suc i)"
          using mx False by (cases j) auto
      qed
      have f: "\<forall>j<Suc i. box_area ((x # xs) ! j) < box_area ((x # xs) ! Suc i)"
      proof (intro allI impI)
        fix j assume "j < Suc i"
        then show "box_area ((x # xs) ! j) < box_area ((x # xs) ! Suc i)"
          using fst False by (cases j) auto
      qed
      show ?thesis using i b m f by (intro exI [of _ "Suc i"]) simp
    qed
  qed
qed

text \<open>
  C8. Of the detections that the detector returned, in its order, \<^verbatim>\<open>centerCropFace\<close> takes
  one of largest area (width times height), and every detection before the one taken has
  a strictly smaller area: among detections of equal largest area it is the first. The
  canvas of the success path is framed on that detection.
\<close>

theorem centerCropFace_selects_first_largest:
  assumes "detections \<noteq> []"
  shows "\<exists>i<length detections.
           bestDetection detections = Some (detections ! i) \<and>
           (\<forall>j<length detections. box_area (detections ! j) \<le> box_area (detections ! i)) \<and>
           (\<forall>j<i. box_area (detections ! j) < box_area (detections ! i)) \<and>
           (fst (ensureModelsLoaded env promise) \<and> bufferToImage env imgFile = Some img \<and>
            detectSource env img = Inr (source, scaleFactor) \<and>
            detectAllFaces env source = Inr detections \<and> getContext env (cw, ch) \<longrightarrow>
              fst (centerCropFace env promise imgFile cw ch)
                = Inr (DataURL (frameCanvas img cw ch (rescaleBox scaleFactor (detections ! i)))))"
proof -
  from bestDetection_index [OF assms] obtain i where i: "i < length detections"
    and best: "bestDetection detections = Some (detections ! i)"
    and mx: "\<forall>j<length detections. box_area (detections ! j) \<le> box_area (detections ! i)"
    and fst: "\<forall>j<i. box_area (detections ! j) < box_area (detections ! i)"
    by blast
  have "fst (centerCropFace env promise imgFile cw ch)
          = Inr (DataURL (frameCanvas img cw ch (rescaleBox scaleFactor (detections ! i))))"
    if "fst (ensureModelsLoaded env promise)" "bufferToImage env imgFile = Some img"
       "detectSource env img = Inr (source, scaleFactor)"
       "detectAllFaces env source = Inr detections" "getContext env (cw, ch)"
    using that assms best by (auto simp: centerCropFace_def split: prod.splits)
  with i best mx fst show ?thesis by blast
qed

theorem centerCropFace_selects_first_largest_witness:
  "bestDetection
     [\<lparr>box_x = 0, box_y = 0, box_width = 2, box_height = 2\<rparr>,
      \<lparr>box_x = 1, box_y = 1, box_width = 10, box_height = 10\<rparr>,
      \<lparr>box_x = 5, box_y = 5, box_width = 20, box_height = 5\<rparr>]
   = Some \<lparr>box_x = 1, box_y = 1, box_width = 10, box_height = 10\<rparr>"
  using centerCropFace_selects_first_largest
    [of "[\<lparr>box_x = 0, box_y = 0, box_width = 2, box_height = 2\<rparr>,
          \<lparr>box_x = 1, box_y = 1, box_width = 10, box_height = 10\<rparr>,
          \<lparr>box_x = 5, box_y = 5, box_width = 20, box_height = 5\<rparr>]"]
  by (simp add: bestDetection_def js_sort_def area_cmp_def)

lemma Math_round_ge0: "0 \<le> x \<Longrightarrow> 0 \<le> Math_round x"
  by (simp add: Math_round_def)

lemma Math_round_close: "\<bar>Math_round x - x\<bar> \<le> 1 / 2"
  unfolding Math_round_def by linarith

lemma Math_round_le_nat: "x \<le> real n \<Longrightarrow> Math_round x \<le> real n"
proof -
  assume "x \<le> real n"
  then have "\<lfloor>x + 1 / 2\<rfloor> \<le> int n" by linarith
  then have "real_of_int \<lfloor>x + 1 / 2\<rfloor> \<le> real_of_int (int n)"
    by (simp only: of_int_le_iff)
  then show ?thesis by (simp add: Math_round_def)
qed

lemma round_quotient_cases:
  "round_quotient low x = Math_round x \<or>
   (x - of_int \<lfloor>x\<rfloor> = 1 / 2 \<and> round_quotient low x = of_int \<lfloor>x\<rfloor>)"
  by (simp add: round_quotient_def)

lemma round_quotient_ge0: "0 \<le> x \<Longrightarrow> 0 \<le> round_quotient low x"
  using round_quotient_cases [of low x] Math_round_ge0 [of x] by auto

lemma round_quotient_close: "\<bar>round_quotient low x - x\<bar> \<le> 1 / 2"
  using round_quotient_cases [of low x] Math_round_close [of x] by auto

lemma round_quotient_le_nat: "x \<le> real n \<Longrightarrow> round_quotient low x \<le> real n"
  using round_quotient_cases [of low x] Math_round_le_nat [of x n] by linarith

lemma nat_floor_round_quotient:
  "0 \<le> x \<Longrightarrow> real (nat \<lfloor>round_quotient low x\<rfloor>) = round_quotient low x"
  by (simp add: round_quotient_def Math_round_def)

lemma targetSize_wide:
  assumes "0 < img_height img" and "img_height img \<le> img_width img"
    and "640 < img_width img \<or> 640 < img_height img"
  shows "targetWidth env img = 640"
    and "targetHeight env img = round_quotient (quotient_low env img) (640 * real (img_height img) / real (img_width img))"
    and "0 \<le> targetHeight env img" and "targetHeight env img \<le> 640"
proof -
  have w: "640 < img_width img" using assms by linarith
  have asp: "1 \<le> real (img_width img) / real (img_height img)"
    using assms by simp
  show tw: "targetWidth env img = 640"
    using asp w by (simp add: targetWidth_def Let_def MAX_SIZE_def)
  show th: "targetHeight env img = round_quotient (quotient_low env img) (640 * real (img_height img) / real (img_width img))"
    using asp by (simp add: targetHeight_def Let_def MAX_SIZE_def)
  have q: "640 * real (img_height img) / real (img_width img) \<le> real (640::nat)"
    using assms w by (simp add: field_simps)
  show "0 \<le> targetHeight env img" unfolding th by (rule round_quotient_ge0) simp
  show "targetHeight env img \<le> 640"
    unfolding th using round_quotient_le_nat [OF q] by simp
qed

lemma targetSize_tall:
  assumes "0 < img_width img" and "img_width img < img_height img"
    and "640 < img_width img \<or> 640 < img_height img"
  shows "targetHeight env img = 640"
    and "targetWidth env img = round_quotient (quotient_low env img) (640 * real (img_width img) / real (img_height img))"
    and "0 \<le> targetWidth env img" and "targetWidth env img \<le> 640"
proof -
  have h: "640 < img_height img" using assms by linarith
  have asp: "\<not> 1 \<le> real (img_width img) / real (img_height img)"
    using assms by simp
  show "targetHeight env img = 640"
    using asp h by (simp add: targetHeight_def Let_def MAX_SIZE_def)
  show tw: "targetWidth env img = round_quotient (quotient_low env img) (640 * real (img_width img) / real (img_height img))"
    using asp by (simp add: targetWidth_def Let_def MAX_SIZE_def)
  have q: "640 * real (img_width img) / real (img_height img) \<le> real (640::nat)"
    using assms h by (simp add: field_simps)
  show "0 \<le> targetWidth env img" unfolding tw by (rule round_quotient_ge0) simp
  show "targetWidth env img \<le> 640"
    unfolding tw using round_quotient_le_nat [OF q] by simp
qed

lemma nat_floor_Math_round: "0 \<le> x \<Longrightarrow> real (nat \<lfloor>Math_round x\<rfloor>) = Math_round x"
  by (simp add: Math_round_def)

lemma bestDetection_Some_nonempty: "bestDetection ds = Some b \<Longrightarrow> ds \<noteq> []"
  by (auto simp: bestDetection_def js_sort_def)

lemma rescaleBox_fields:
  "rescaleBox sf b = \<lparr>box_x = box_x b * (1 / sf), box_y = box_y b * (1 / sf),
                       box_width = box_width b * (1 / sf), box_height = box_height b * (1 / sf)\<rparr>"
  by (simp add: rescaleBox_def Let_def)

lemma rescaleBox_back:
  "0 < sf \<Longrightarrow>
   box_x (rescaleBox sf b) * sf = box_x b \<and> box_y (rescaleBox sf b) * sf = box_y b \<and>
   box_width (rescaleBox sf b) * sf = box_width b \<and> box_height (rescaleBox sf b) * sf = box_height b"
  by (simp add: rescaleBox_def Let_def)

lemma aspect_kept:
  assumes "0 < img_width img" and "0 < img_height img"
    and "640 < img_width img \<or> 640 < img_height img"
  shows "max (targetWidth env img) (targetHeight env img) = 640"
    and "0 \<le> targetWidth env img" and "0 \<le> targetHeight env img"
    and "\<bar>targetWidth env img * real (img_height img) - targetHeight env img * real (img_width img)\<bar>
           \<le> max (real (img_width img)) (real (img_height img)) / 2"
    and "real (nat \<lfloor>targetWidth env img\<rfloor>) = targetWidth env img"
    and "real (nat \<lfloor>targetHeight env img\<rfloor>) = targetHeight env img"
proof -
  let ?w = "real (img_width img)" and ?h = "real (img_height img)"
  have pos: "0 < ?w" "0 < ?h" using assms by simp_all
  consider (wide) "img_height img \<le> img_width img" | (tall) "img_width img < img_height img"
    by linarith
  then have all: "max (targetWidth env img) (targetHeight env img) = 640 \<and>
     0 \<le> targetWidth env img \<and> 0 \<le> targetHeight env img \<and>
     \<bar>targetWidth env img * ?h - targetHeight env img * ?w\<bar> \<le> max ?w ?h / 2 \<and>
     real (nat \<lfloor>targetWidth env img\<rfloor>) = targetWidth env img \<and>
     real (nat \<lfloor>targetHeight env img\<rfloor>) = targetHeight env img"
  proof cases
    case wide
    note t = targetSize_wide [OF assms(2) wide assms(3)]
    have "\<bar>targetHeight env img - 640 * ?h / ?w\<bar> \<le> 1 / 2"
      unfolding t(2) by (rule round_quotient_close)
    then have "\<bar>targetHeight env img - 640 * ?h / ?w\<bar> * ?w \<le> 1 / 2 * ?w"
      using pos by (intro mult_right_mono) simp_all
    then have "\<bar>(targetHeight env img - 640 * ?h / ?w) * ?w\<bar> \<le> ?w / 2"
      using pos by (simp add: abs_mult)
    moreover have "(targetHeight env img - 640 * ?h / ?w) * ?w = targetHeight env img * ?w - 640 * ?h"
      using pos by (simp add: field_simps)
    ultimately have e: "\<bar>640 * ?h - targetHeight env img * ?w\<bar> \<le> ?w / 2"
      by (simp add: abs_minus_commute)
    have m: "max ?w ?h = ?w" using wide by simp
    have n: "real (nat \<lfloor>targetHeight env img\<rfloor>) = targetHeight env img"
      unfolding t(2) by (rule nat_floor_round_quotient) simp
    show ?thesis using t e m n by simp
  next
    case tall
    note t = targetSize_tall [OF assms(1) tall assms(3)]
    have "\<bar>targetWidth env img - 640 * ?w / ?h\<bar> \<le> 1 / 2"
      unfolding t(2) by (rule round_quotient_close)
    then have "\<bar>targetWidth env img - 640 * ?w / ?h\<bar> * ?h \<le> 1 / 2 * ?h"
      using pos by (intro mult_right_mono) simp_all
    then have "\<bar>(targetWidth env img - 640 * ?w / ?h) * ?h\<bar> \<le> ?h / 2"
      using pos by (simp add: abs_mult)
    moreover have "(targetWidth env img - 640 * ?w / ?h) * ?h = targetWidth env img * ?h - 640 * ?w"
      using pos by (simp add: field_simps)
    ultimately have e: "\<bar>targetWidth env img * ?h - 640 * ?w\<bar> \<le> ?h / 2"
      by simp
    have m: "max ?w ?h = ?h" using tall by simp
    have n: "real (nat \<lfloor>targetWidth env img\<rfloor>) = targetWidth env img"
      unfolding t(2) by (rule nat_floor_round_quotient) simp
    show ?thesis using t e m n by simp
  qed
  show "max (targetWidth env img) (targetHeight env img) = 640"
    and "0 \<le> targetWidth env img" and "0 \<le> targetHeight env img"
    and "\<bar>targetWidth env img * ?h - targetHeight env img * ?w\<bar> \<le> max ?w ?h / 2"
    and "real (nat \<lfloor>targetWidth env img\<rfloor>) = targetWidth env img"
    and "real (nat \<lfloor>targetHeight env img\<rfloor>) = targetHeight env img"
    using all by simp_all
qed

text \<open>
  A 1024 by 764 image is such a case: the exact height of its copy is 477 and a half, and
  the copy is 477 or 478 pixels high as the double quotient falls below the half or on it.
\<close>

lemma targetHeight_at_half:
  "targetWidth env \<lparr>img_src = ''y'', img_width = 1024, img_height = 764\<rparr> = 640 \<and>
   targetHeight env \<lparr>img_src = ''y'', img_width = 1024, img_height = 764\<rparr>
     = (if quotient_low env \<lparr>img_src = ''y'', img_width = 1024, img_height = 764\<rparr>
        then 477 else 478)"
  by (simp add: targetWidth_def targetHeight_def Let_def MAX_SIZE_def round_quotient_def
      Math_round_def)

text \<open>
  C9. For a decoded image with a side above 640 px whose downscaling canvas has a 2D
  context, the detector's source is a canvas of \<open>targetWidth\<close> by \<open>targetHeight\<close> pixels
  holding the whole image; its larger side is 640 px and its sides are in the image's
  ratio up to the rounding of the shorter side to a pixel, whichever way a half is rounded. \<^verbatim>\<open>scaleFactor\<close> is the canvas
  width over the image width, and the success path frames the canvas on the selected box
  with \<open>x\<close>, \<open>y\<close>, \<open>width\<close> and \<open>height\<close> each multiplied by \<open>1 / scaleFactor\<close>, which maps
  the box back to the image's coordinates. A 2000 by 1000 image gives a 640 by 320 copy
  and a factor of 0.32, and the box \<open>(100, 100, 50, 50)\<close> becomes
  \<open>(312.5, 312.5, 156.25, 156.25)\<close>.
\<close>

theorem detection_on_downscaled_copy:
  assumes "0 < img_width img" and "0 < img_height img"
    and "640 < img_width img \<or> 640 < img_height img"
    and "getContext env (nat \<lfloor>targetWidth env img\<rfloor>, nat \<lfloor>targetHeight env img\<rfloor>)"
  shows "\<exists>cv scaleFactor.
           detectSource env img = Inr (SourceCanvas cv, scaleFactor) \<and>
           real (cv_width cv) = targetWidth env img \<and> real (cv_height cv) = targetHeight env img \<and>
           cv_ops cv = [DrawImageTo img 0 0 (targetWidth env img) (targetHeight env img)] \<and>
           max (targetWidth env img) (targetHeight env img) = 640 \<and>
           \<bar>targetWidth env img * real (img_height img) - targetHeight env img * real (img_width img)\<bar>
             \<le> max (real (img_width img)) (real (img_height img)) / 2 \<and>
           scaleFactor = real (cv_width cv) / real (img_width img) \<and>
           (\<forall>detections detBox.
              fst (ensureModelsLoaded env promise) \<and> bufferToImage env imgFile = Some img \<and>
              detectAllFaces env (SourceCanvas cv) = Inr detections \<and>
              bestDetection detections = Some detBox \<and> getContext env (cw, ch) \<longrightarrow>
                fst (centerCropFace env promise imgFile cw ch)
                  = Inr (DataURL (frameCanvas img cw ch
                      \<lparr>box_x = box_x detBox * (1 / scaleFactor),
                       box_y = box_y detBox * (1 / scaleFactor),
                       box_width = box_width detBox * (1 / scaleFactor),
                       box_height = box_height detBox * (1 / scaleFactor)\<rparr>))) \<and>
           (0 < cv_width cv \<longrightarrow>
              (\<forall>b. box_x (rescaleBox scaleFactor b) * scaleFactor = box_x b \<and>
                   box_y (rescaleBox scaleFactor b) * scaleFactor = box_y b \<and>
                   box_width (rescaleBox scaleFactor b) * scaleFactor = box_width b \<and>
                   box_height (rescaleBox scaleFactor b) * scaleFactor = box_height b)) \<and>
           targetWidth env \<lparr>img_src = ''x'', img_width = 2000, img_height = 1000\<rparr> = 640 \<and>
           targetHeight env \<lparr>img_src = ''x'', img_width = 2000, img_height = 1000\<rparr> = 320 \<and>
           (640::real) / 2000 = 0.32 \<and>
           rescaleBox 0.32 \<lparr>box_x = 100, box_y = 100, box_width = 50, box_height = 50\<rparr>
             = \<lparr>box_x = 312.5, box_y = 312.5, box_width = 156.25, box_height = 156.25\<rparr>"
proof -
  define cv where "cv = \<lparr>cv_width = nat \<lfloor>targetWidth env img\<rfloor>, cv_height = nat \<lfloor>targetHeight env img\<rfloor>,
                          cv_ops = [DrawImageTo img 0 0 (targetWidth env img) (targetHeight env img)]\<rparr>"
  define sf where "sf = targetWidth env img / real (img_width img)"
  note k = aspect_kept [OF assms(1,2,3)]
  have big: "real (img_width img) > MAX_SIZE \<or> real (img_height img) > MAX_SIZE"
    using assms(3) by (auto simp: MAX_SIZE_def)
  have ds: "detectSource env img = Inr (SourceCanvas cv, sf)"
    using big assms(4) by (simp add: detectSource_def Let_def cv_def sf_def)
  have dims: "real (cv_width cv) = targetWidth env img" "real (cv_height cv) = targetHeight env img"
    "cv_ops cv = [DrawImageTo img 0 0 (targetWidth env img) (targetHeight env img)]"
    using k(5,6) by (simp_all add: cv_def)
  have sf: "sf = real (cv_width cv) / real (img_width img)"
    using dims by (simp add: sf_def)
  have run: "fst (centerCropFace env promise imgFile cw ch)
               = Inr (DataURL (frameCanvas img cw ch
                   \<lparr>box_x = box_x detBox * (1 / sf), box_y = box_y detBox * (1 / sf),
                    box_width = box_width detBox * (1 / sf),
                    box_height = box_height detBox * (1 / sf)\<rparr>))"
    if "fst (ensureModelsLoaded env promise)" "bufferToImage env imgFile = Some img"
       "detectAllFaces env (SourceCanvas cv) = Inr detections"
       "bestDetection detections = Some detBox" "getContext env (cw, ch)"
    for detections detBox
    using that ds bestDetection_Some_nonempty [OF that(4)]
    by (auto simp: centerCropFace_def rescaleBox_fields split: prod.splits)
  have undo: "box_x (rescaleBox sf b) * sf = box_x b \<and>
              box_y (rescaleBox sf b) * sf = box_y b \<and>
              box_width (rescaleBox sf b) * sf = box_width b \<and>
              box_height (rescaleBox sf b) * sf = box_height b"
    if "0 < cv_width cv" for b
  proof -
    have "0 < sf" using that assms(1) unfolding sf by simp
    then show ?thesis by (rule rescaleBox_back)
  qed
  have ex: "targetWidth env \<lparr>img_src = ''x'', img_width = 2000, img_height = 1000\<rparr> = 640 \<and>
            targetHeight env \<lparr>img_src = ''x'', img_width = 2000, img_height = 1000\<rparr> = 320 \<and>
            (640::real) / 2000 = 0.32 \<and>
            rescaleBox 0.32 \<lparr>box_x = 100, box_y = 100, box_width = 50, box_height = 50\<rparr>
              = \<lparr>box_x = 312.5, box_y = 312.5, box_width = 156.25, box_height = 156.25\<rparr>"
    by (simp add: targetWidth_def targetHeight_def Let_def MAX_SIZE_def Math_round_def
        round_quotient_def rescaleBox_def)
  show ?thesis
    apply (rule exI [of _ cv])
    apply (rule exI [of _ sf])
    using ds dims k(1,4) sf run undo ex by blast
qed

theorem detection_on_downscaled_copy_witness:
  "detectSource
     \<lparr>loadFromUri = True, bufferToImage = (\<lambda>f. None), getContext = (\<lambda>d. True),
      detectAllFaces = (\<lambda>src. Inr []),
           quotient_low = (\<lambda>i. True)\<rparr>
     \<lparr>img_src = ''x'', img_width = 2000, img_height = 1000\<rparr>
   = Inr (SourceCanvas
            \<lparr>cv_width = 640, cv_height = 320,
             cv_ops = [DrawImageTo \<lparr>img_src = ''x'', img_width = 2000, img_height = 1000\<rparr>
                         0 0 640 320]\<rparr>,
          8 / 25)"
  using detection_on_downscaled_copy
    [where img = "\<lparr>img_src = ''x'', img_width = 2000, img_height = 1000\<rparr>"
       and env = "\<lparr>loadFromUri = True, bufferToImage = (\<lambda>f. None), getContext = (\<lambda>d. True),
                   detectAllFaces = (\<lambda>src. Inr []),
           quotient_low = (\<lambda>i. True)\<rparr>"]
  by (simp add: detectSource_def targetWidth_def targetHeight_def Let_def MAX_SIZE_def
      Math_round_def round_quotient_def)

lemma raster_single:
  "cv_ops cv = [op] \<Longrightarrow> \<not> op_overlaps op p \<Longrightarrow> raster blend cv p = transparent"
  by (simp add: raster_def paint_def)

lemma centerCropFace_success:
  assumes "fst (centerCropFace env promise imgFile cw ch) = Inr (DataURL cv)"
  shows "\<exists>img b. bufferToImage env imgFile = Some img \<and> cv = frameCanvas img cw ch b"
  using assms
  by (auto simp: centerCropFace_def split: prod.splits if_splits option.splits sum.splits)

text \<open>
  C10. When \<^verbatim>\<open>centerCropFace\<close> returns the PNG of a canvas, that canvas has the
  container's width and height, no \<^verbatim>\<open>fillRect\<close> was made on it, and a single \<^verbatim>\<open>drawImage\<close>
  put the whole decoded image, scaled uniformly, at an offset. A pixel that the scaled and
  translated image does not overlap is as the new canvas had it: transparent black, not
  white, whatever the browser's resampling and compositing do inside the image's extent.
\<close>

theorem centerCropFace_background_transparent:
  assumes "fst (centerCropFace env promise imgFile cw ch) = Inr (DataURL cv)"
  shows "cv_width cv = cw \<and> cv_height cv = ch \<and> \<not> list_ex is_fill (cv_ops cv) \<and>
         (\<exists>img b dx dy.
            bufferToImage env imgFile = Some img \<and>
            cv_ops cv = [DrawImageTo img dx dy (real (img_width img) * frameScale cw ch b)
                           (real (img_height img) * frameScale cw ch b)] \<and>
            (\<forall>blend p.
               \<not> rect_overlaps dx dy (real (img_width img) * frameScale cw ch b)
                    (real (img_height img) * frameScale cw ch b) p \<longrightarrow>
               raster blend cv p = transparent))"
proof -
  from centerCropFace_success [OF assms] obtain img b where
    img: "bufferToImage env imgFile = Some img" and cv: "cv = frameCanvas img cw ch b"
    by blast
  define sc where "sc = frameScale cw ch b"
  define dx where "dx = real cw / 2 - (box_x b + box_width b / 2) * sc"
  define dy where "dy = real ch / 2 - (box_y b + box_height b / 2) * sc"
  have ops: "cv_ops cv = [DrawImageTo img dx dy (real (img_width img) * sc) (real (img_height img) * sc)]"
    by (simp add: cv frameCanvas_def Let_def sc_def dx_def dy_def)
  have dims: "cv_width cv = cw" "cv_height cv = ch"
    by (simp_all add: cv frameCanvas_def Let_def)
  have nofill: "\<not> list_ex is_fill (cv_ops cv)"
    by (simp add: ops)
  have clear: "raster blend cv p = transparent"
    if "\<not> rect_overlaps dx dy (real (img_width img) * sc) (real (img_height img) * sc) p"
    for blend p
    using raster_single [OF ops] that by simp
  show ?thesis
    using dims nofill img ops clear unfolding sc_def by blast
qed

theorem centerCropFace_background_transparent_witness:
  "fst (centerCropFace
          \<lparr>loadFromUri = True,
           bufferToImage = (\<lambda>f. Some \<lparr>img_src = ''blob'', img_width = 100, img_height = 100\<rparr>),
           getContext = (\<lambda>d. True),
           detectAllFaces = (\<lambda>src. Inr [\<lparr>box_x = 0, box_y = 0, box_width = 100, box_height = 100\<rparr>]),
           quotient_low = (\<lambda>i. True)\<rparr>
          None \<lparr>file_type = ''image/png'', file_bytes = [1, 2]\<rparr> 200 200)
     = Inr (DataURL \<lparr>cv_width = 200, cv_height = 200,
                     cv_ops = [DrawImageTo \<lparr>img_src = ''blob'', img_width = 100, img_height = 100\<rparr>
                                 50 50 100 100]\<rparr>) \<and>
   raster (\<lambda>op p old. (255, 255, 255, 255))
     \<lparr>cv_width = 200, cv_height = 200,
      cv_ops = [DrawImageTo \<lparr>img_src = ''blob'', img_width = 100, img_height = 100\<rparr>
                  50 50 100 100]\<rparr> (10, 10) = (0, 0, 0, 0)"
  using centerCropFace_background_transparent
    [where env = "\<lparr>loadFromUri = True,
           bufferToImage = (\<lambda>f. Some \<lparr>img_src = ''blob'', img_width = 100, img_height = 100\<rparr>),
           getContext = (\<lambda>d. True),
           detectAllFaces = (\<lambda>src. Inr [\<lparr>box_x = 0, box_y = 0, box_width = 100, box_height = 100\<rparr>]),
           quotient_low = (\<lambda>i. True)\<rparr>"
       and promise = None and imgFile = "\<lparr>file_type = ''image/png'', file_bytes = [1, 2]\<rparr>"
       and cw = 200 and ch = 200
       and cv = "\<lparr>cv_width = 200, cv_height = 200,
                  cv_ops = [DrawImageTo \<lparr>img_src = ''blob'', img_width = 100, img_height = 100\<rparr>
                              50 50 100 100]\<rparr>"]
  by (simp add: centerCropFace_def ensureModelsLoaded_def detectSource_def MAX_SIZE_def
      bestDetection_def js_sort_def frameCanvas_def frameScale_def targetFill_def rescaleBox_def
      Let_def raster_def paint_def rect_overlaps_def transparent_def)

section \<open>Pan offsets: the guard, the clamp and the range of what is stored\<close>

lemma onMove_fields:
  assumes "dragRef s = Some d"
  shows "dragRef (onMove x y s) = Some (d\<lparr>d_moved := True\<rparr>)"
    and "pendingOffsetRef (onMove x y s) =
           Some (d_key d,
                 max 0 (min 100 (d_startOffsetX d + (x - d_startX d) / d_elW d * 100)),
                 max 0 (min 100 (d_startOffsetY d + (y - d_startY d) / d_elH d * 100)))"
    and "rafIdRef (onMove x y s) \<noteq> None"
    and "cellOffsets (onMove x y s) = cellOffsets s"
    and "cellImages (onMove x y s) = cellImages s"
    and "moveListeners (onMove x y s) = moveListeners s"
  using assms by (simp_all add: onMove_def Let_def split: option.splits)

lemma onMove_idem: "onMove x y (onMove x y s) = onMove x y s"
proof (cases "dragRef s")
  case None
  then show ?thesis by (simp add: onMove_def)
next
  case (Some d)
  define t where "t = onMove x y s"
  have dr: "dragRef t = Some (d\<lparr>d_moved := True\<rparr>)"
    and pe: "pendingOffsetRef t =
           Some (d_key d,
                 max 0 (min 100 (d_startOffsetX d + (x - d_startX d) / d_elW d * 100)),
                 max 0 (min 100 (d_startOffsetY d + (y - d_startY d) / d_elH d * 100)))"
    and ra: "rafIdRef t \<noteq> None"
    unfolding t_def using onMove_fields [OF Some] by simp_all
  from ra obtain i where i: "rafIdRef t = Some i" by blast
  have "onMove x y t = t\<lparr>dragRef := dragRef t, pendingOffsetRef := pendingOffsetRef t,
                          rafIdRef := rafIdRef t, nextRafId := nextRafId t\<rparr>"
    unfolding onMove_def by (simp add: dr pe i Let_def)
  then show ?thesis by (simp add: t_def [symmetric])
qed


lemma startDrag_no_image: "\<not> truthy (cellImages s cellKey) \<Longrightarrow> startDrag cellKey x0 y0 w h s = s"
  by (simp add: startDrag_def)

lemma onMove_funpow: "(onMove x y ^^ Suc n) s = onMove x y s"
  by (induction n) (simp_all add: onMove_idem)

lemma onMove_offsets: "cellOffsets (onMove x y s) = cellOffsets s"
  by (simp add: onMove_def Let_def split: option.splits)

lemma onMove_pending: "pending_in_range s \<Longrightarrow> pending_in_range (onMove x y s)"
  by (auto simp: onMove_def Let_def pending_in_range_def split: option.splits)

lemma in_range_frame:
  assumes "cellOffsets t = cellOffsets s" and "pendingOffsetRef t = pendingOffsetRef s"
    and "offsets_in_range s \<and> pending_in_range s"
  shows "offsets_in_range t \<and> pending_in_range t"
  using assms by (simp add: offsets_in_range_def pending_in_range_def)

lemma onMove_keeps:
  assumes "offsets_in_range s \<and> pending_in_range s"
  shows "offsets_in_range (onMove x y s) \<and> pending_in_range (onMove x y s)"
  using assms onMove_pending [of s x y] by (simp add: offsets_in_range_def onMove_offsets)

lemma onMove_pow_keeps:
  "offsets_in_range s \<and> pending_in_range s \<Longrightarrow>
   offsets_in_range ((onMove x y ^^ n) s) \<and> pending_in_range ((onMove x y ^^ n) s)"
proof (induction n)
  case 0
  then show ?case by simp
next
  case (Suc n)
  then show ?case using onMove_keeps [of "(onMove x y ^^ n) s" x y] by simp
qed

lemma onUp_keeps:
  assumes "offsets_in_range s \<and> pending_in_range s"
  shows "offsets_in_range (onUp s) \<and> pending_in_range (onUp s)"
  by (rule in_range_frame [OF _ _ assms]) (simp_all add: onUp_def)

lemma onUp_pow_keeps:
  "offsets_in_range s \<and> pending_in_range s \<Longrightarrow>
   offsets_in_range ((onUp ^^ n) s) \<and> pending_in_range ((onUp ^^ n) s)"
proof (induction n)
  case 0
  then show ?case by simp
next
  case (Suc n)
  then show ?case using onUp_keeps [of "(onUp ^^ n) s"] by simp
qed

lemma rafCallback_keeps:
  assumes "offsets_in_range s \<and> pending_in_range s"
  shows "offsets_in_range (rafCallback s) \<and> pending_in_range (rafCallback s)"
proof (cases "pendingOffsetRef s")
  case None
  show ?thesis
    by (rule in_range_frame [OF _ _ assms]) (simp_all add: rafCallback_def None)
next
  case (Some pend)
  obtain k x y where pend: "pend = (k, x, y)" by (cases pend) auto
  have r: "0 \<le> x \<and> x \<le> 100 \<and> 0 \<le> y \<and> y \<le> 100"
    using assms Some pend by (simp add: pending_in_range_def)
  have c: "cellOffsets (rafCallback s) = (cellOffsets s)(property_key k \<mapsto> (x, y))"
    and p: "pendingOffsetRef (rafCallback s) = pendingOffsetRef s"
    by (simp_all add: rafCallback_def Some pend)
  have "offsets_in_range (rafCallback s)"
    unfolding offsets_in_range_def c using assms r
    by (auto simp: offsets_in_range_def split: if_splits)
  moreover have "pending_in_range (rafCallback s)"
    using assms by (simp add: pending_in_range_def p)
  ultimately show ?thesis by simp
qed

lemma startDrag_keeps:
  assumes "offsets_in_range s \<and> pending_in_range s"
  shows "offsets_in_range (startDrag k x0 y0 w h s) \<and> pending_in_range (startDrag k x0 y0 w h s)"
  by (rule in_range_frame [OF _ _ assms]) (simp_all add: startDrag_def Let_def)

lemma timeoutCallback_keeps:
  assumes "offsets_in_range s \<and> pending_in_range s"
  shows "offsets_in_range (timeoutCallback s) \<and> pending_in_range (timeoutCallback s)"
  by (rule in_range_frame [OF _ _ assms]) (simp_all add: timeoutCallback_def)

lemma handleCellClick_keeps:
  assumes "offsets_in_range s \<and> pending_in_range s"
  shows "offsets_in_range (handleCellClick k s) \<and> pending_in_range (handleCellClick k s)"
  by (rule in_range_frame [OF _ _ assms]) (simp_all add: handleCellClick_def)

lemma upload_step_keeps:
  assumes "offsets_in_range s \<and> pending_in_range s"
  shows "offsets_in_range (case handleImageUpload file s of
             (s', None) \<Rightarrow> s' | (s', Some (sel, g)) \<Rightarrow> reader_onload sel imageUrl s') \<and>
   pending_in_range (case handleImageUpload file s of
             (s', None) \<Rightarrow> s' | (s', Some (sel, g)) \<Rightarrow> reader_onload sel imageUrl s')"
  by (rule in_range_frame [OF _ _ assms])
     (simp_all add: handleImageUpload_def reader_onload_def split: option.splits)

lemma step_keeps:
  assumes "offsets_in_range s \<and> pending_in_range s"
  shows "offsets_in_range (step e s) \<and> pending_in_range (step e s)"
proof (cases e)
  case (StartDrag k x0 y0 w h)
  then show ?thesis using startDrag_keeps [OF assms] by (simp add: step_def)
next
  case (PointerMove x y)
  then show ?thesis using onMove_pow_keeps [OF assms] by (simp add: step_def)
next
  case AnimationFrame
  then show ?thesis using rafCallback_keeps [OF assms] assms by (simp add: step_def)
next
  case PointerUp
  then show ?thesis using onUp_pow_keeps [OF assms] by (simp add: step_def)
next
  case Timeout
  then show ?thesis using timeoutCallback_keeps [OF assms] assms by (simp add: step_def)
next
  case (CellClick k)
  then show ?thesis using handleCellClick_keeps [OF assms] by (simp add: step_def)
next
  case (FileChange chosen imageUrl)
  then show ?thesis using upload_step_keeps [OF assms] by (simp add: step_def)
qed

lemma run_keeps:
  "offsets_in_range s \<and> pending_in_range s \<Longrightarrow>
   offsets_in_range (run evs s) \<and> pending_in_range (run evs s)"
proof (induction evs arbitrary: s)
  case Nil
  then show ?case by (simp add: run_def)
next
  case (Cons e evs)
  have "run (e # evs) s = run evs (step e s)" by (simp add: run_def)
  then show ?case using Cons.IH [OF step_keeps [OF Cons.prems]] by simp
qed

lemma initial_in_range: "offsets_in_range initial_state \<and> pending_in_range initial_state"
  by (simp add: initial_state_def offsets_in_range_def pending_in_range_def)


lemma startDrag_fields:
  assumes "truthy (cellImages s cellKey)"
  shows "moveListeners (startDrag cellKey x0 y0 w h s) = Suc (moveListeners s)"
    and "dragRef (startDrag cellKey x0 y0 w h s) =
           Some \<lparr>d_key = Some cellKey, d_startX = x0, d_startY = y0,
                 d_startOffsetX = fst (current_offset s cellKey),
                 d_startOffsetY = snd (current_offset s cellKey),
                 d_elW = w, d_elH = h, d_moved = False\<rparr>"
  using assms by (simp_all add: startDrag_def Let_def current_offset_def)

lemma drag_stores_clamped:
  assumes "truthy (cellImages s cellKey)"
  shows "cellOffsets (run [StartDrag cellKey x0 y0 w h, PointerMove x y, AnimationFrame] s) cellKey
           = Some (max 0 (min 100 (fst (current_offset s cellKey) + (x - x0) / w * 100)),
                   max 0 (min 100 (snd (current_offset s cellKey) + (y - y0) / h * 100)))"
proof -
  define t where "t = startDrag cellKey x0 y0 w h s"
  define u where "u = onMove x y t"
  note sd = startDrag_fields [OF assms, of x0 y0 w h, folded t_def]
  have m: "step (PointerMove x y) t = u"
    using onMove_funpow [where x = x and y = y and n = "moveListeners s" and s = t] by (simp add: step_def sd(1) u_def)
  note mv = onMove_fields [OF sd(2), of x y, folded u_def]
  have a: "step AnimationFrame u = rafCallback u"
    using mv(3) by (cases "rafIdRef u") (simp_all add: step_def)
  have "run [StartDrag cellKey x0 y0 w h, PointerMove x y, AnimationFrame] s
          = step AnimationFrame (step (PointerMove x y) (step (StartDrag cellKey x0 y0 w h) s))"
    by (simp add: run_def)
  also have "step (StartDrag cellKey x0 y0 w h) s = t"
    by (simp add: step_def t_def)
  finally have r: "run [StartDrag cellKey x0 y0 w h, PointerMove x y, AnimationFrame] s = rafCallback u"
    by (simp add: m a)
  show ?thesis
    unfolding r using mv(2) by (simp add: rafCallback_def property_key_def)
qed

lemma idle_drag_noop:
  assumes "\<not> truthy (cellImages s cellKey)" and "moveListeners s = 0" and "rafIdRef s = None"
  shows "run [StartDrag cellKey x0 y0 w h, PointerMove x y, AnimationFrame] s = s"
  using assms by (simp add: run_def step_def startDrag_def)


text \<open>
  The key under which a frame stores the offset is the drag's key at the time of the move.
  When the timeout of an earlier release fires after a new drag has started, it clears
  that key, and the next frame stores the (clamped) offset under the property name
  \<^verbatim>\<open>null\<close>, for which there is no image.
\<close>

lemma stale_timeout_stores_under_null:
  "cellOffsets
     (run [StartDrag ''A'' 0 0 100 100, PointerUp, StartDrag ''A'' 0 0 100 100, Timeout,
           PointerMove 10 10, AnimationFrame]
        (initial_state\<lparr>cellImages := [''A'' \<mapsto> ''data:a'']\<rparr>)) ''null'' = Some (60, 60) \<and>
   cellImages
     (run [StartDrag ''A'' 0 0 100 100, PointerUp, StartDrag ''A'' 0 0 100 100, Timeout,
           PointerMove 10 10, AnimationFrame]
        (initial_state\<lparr>cellImages := [''A'' \<mapsto> ''data:a'']\<rparr>)) ''null'' = None"
  by (simp add: run_def step_def initial_state_def startDrag_def truthy_def Let_def onUp_def
      timeoutCallback_def onMove_def rafCallback_def property_key_def)

text \<open>
  C5. The code has no function that sets an offset from given numbers: an offset is set by
  a drag, that is \<^verbatim>\<open>startDrag\<close>, a pointer move and the animation frame that commits the
  pending offset. \<^verbatim>\<open>startDrag\<close> on a key without an image changes nothing, and with no drag
  in progress the move and the frame that follow change nothing either. On a key with an
  image (the element under the pointer has a positive size) the offset stored is the
  attempted one, the drag's starting offset plus the pointer's travel in percent of the
  element, clamped to \<open>[0, 100]\<close> on each axis: from the centre, a drag that attempts
  \<open>(150, -20)\<close> stores \<open>(100, 0)\<close>. Whatever events the component receives, every offset in
  \<^verbatim>\<open>cellOffsets\<close> lies in \<open>[0, 100]\<close> on both axes.
\<close>

theorem pan_offset_guard_and_clamp:
  "(\<not> truthy (cellImages s cellKey) \<longrightarrow> startDrag cellKey x0 y0 w h s = s) \<and>
   (\<not> truthy (cellImages s cellKey) \<and> moveListeners s = 0 \<and> rafIdRef s = None \<longrightarrow>
      run [StartDrag cellKey x0 y0 w h, PointerMove x y, AnimationFrame] s = s) \<and>
   (truthy (cellImages s cellKey) \<and> 0 < w \<and> 0 < h \<longrightarrow>
      cellOffsets (run [StartDrag cellKey x0 y0 w h, PointerMove x y, AnimationFrame] s) cellKey
        = Some (max 0 (min 100 (fst (current_offset s cellKey) + (x - x0) / w * 100)),
                max 0 (min 100 (snd (current_offset s cellKey) + (y - y0) / h * 100)))) \<and>
   cellOffsets
     (run [CellClick ''A'', FileChange (Some \<lparr>file_type = ''image/png'', file_bytes = [1]\<rparr>) ''data:a'',
           StartDrag ''A'' 0 0 100 100, PointerMove 100 (- 70), AnimationFrame] initial_state) ''A''
     = Some (100, 0) \<and>
   (offsets_in_range s \<and> pending_in_range s \<and> list_all event_ok evs \<longrightarrow>
      offsets_in_range (run evs s)) \<and>
   (list_all event_ok evs \<longrightarrow> offsets_in_range (run evs initial_state))"
proof -
  have ex: "cellOffsets
     (run [CellClick ''A'', FileChange (Some \<lparr>file_type = ''image/png'', file_bytes = [1]\<rparr>) ''data:a'',
           StartDrag ''A'' 0 0 100 100, PointerMove 100 (- 70), AnimationFrame] initial_state) ''A''
     = Some (100, 0)"
  proof -
    define t where "t = run [CellClick ''A'',
        FileChange (Some \<lparr>file_type = ''image/png'', file_bytes = [1]\<rparr>) ''data:a''] initial_state"
    have img: "cellImages t ''A'' = Some ''data:a''" and off: "cellOffsets t ''A'' = None"
      by (simp_all add: t_def run_def step_def initial_state_def handleCellClick_def
          handleImageUpload_def startsWith_def reader_onload_def)
    have tr: "truthy (cellImages t ''A'')" by (simp add: img truthy_def)
    have "run [CellClick ''A'', FileChange (Some \<lparr>file_type = ''image/png'', file_bytes = [1]\<rparr>) ''data:a'',
           StartDrag ''A'' 0 0 100 100, PointerMove 100 (- 70), AnimationFrame] initial_state
          = run [StartDrag ''A'' 0 0 100 100, PointerMove 100 (- 70), AnimationFrame] t"
      by (simp add: t_def run_def)
    then show ?thesis
      using drag_stores_clamped [OF tr, of 0 0 100 100 100 "- 70"]
      by (simp add: current_offset_def off)
  qed
  show ?thesis
    using startDrag_no_image [of s cellKey x0 y0 w h]
      idle_drag_noop [of s cellKey x0 y0 w h x y]
      drag_stores_clamped [of s cellKey x0 y0 w h x y]
      ex run_keeps [of s evs] run_keeps [OF initial_in_range, of evs]
    by blast
qed


theorem pan_offset_guard_and_clamp_witness:
  "truthy (cellImages (initial_state\<lparr>cellImages := [''A'' \<mapsto> ''data:a'']\<rparr>) ''A'') \<and>
   list_all event_ok [StartDrag ''A'' 0 0 100 100, PointerMove 100 (- 70), AnimationFrame] \<and>
   cellOffsets
     (run [StartDrag ''A'' 0 0 100 100, PointerMove 100 (- 70), AnimationFrame]
        (initial_state\<lparr>cellImages := [''A'' \<mapsto> ''data:a'']\<rparr>)) ''A'' = Some (100, 0) \<and>
   startDrag ''B'' 0 0 100 100 (initial_state\<lparr>cellImages := [''A'' \<mapsto> ''data:a'']\<rparr>)
     = initial_state\<lparr>cellImages := [''A'' \<mapsto> ''data:a'']\<rparr>"
  using pan_offset_guard_and_clamp
      [where s = "initial_state\<lparr>cellImages := [''A'' \<mapsto> ''data:a'']\<rparr>" and cellKey = "''A''"
         and ?x0.0 = 0 and ?y0.0 = 0 and w = 100 and h = 100 and x = 100 and y = "- 70"
         and evs = "[StartDrag ''A'' 0 0 100 100, PointerMove 100 (- 70), AnimationFrame]"]
    pan_offset_guard_and_clamp
      [where s = "initial_state\<lparr>cellImages := [''A'' \<mapsto> ''data:a'']\<rparr>" and cellKey = "''B''"
         and ?x0.0 = 0 and ?y0.0 = 0 and w = 100 and h = 100]
  by (simp add: truthy_def current_offset_def initial_state_def event_ok_def)

end
